theory Spec2Isabelle
  imports Main
begin

section \<open>Type mapper: \<open>DatabaseMigrator.convert_datatype\<close>\<close>

text \<open>
  Python strings are modelled as \<^typ>\<open>string\<close>, with characters read as code points
  below 256. \<open>str.lower\<close> maps the ASCII capitals and the Latin-1 capitals
  (\<open>0xC0\<close> to \<open>0xDE\<close> without \<open>0xD7\<close>) to the code point 32 above and leaves every
  other character as it is.
\<close>

definition lower_char :: "char \<Rightarrow> char" where
  "lower_char c =
     (let n = (of_char c :: nat)
      in if (65 \<le> n \<and> n \<le> 90) \<or> (192 \<le> n \<and> n \<le> 222 \<and> n \<noteq> 215)
         then char_of (n + 32) else c)"

definition lower :: "string \<Rightarrow> string" where
  "lower s = map lower_char s"

text \<open>The decimal text of an integer, as an f-string prints it.\<close>

definition digit_char :: "nat \<Rightarrow> char" where
  "digit_char d = char_of (48 + d)"

fun str_nat :: "nat \<Rightarrow> string" where
  "str_nat n = (if n < 10 then [digit_char n] else str_nat (n div 10) @ [digit_char (n mod 10)])"

definition str_int :: "int \<Rightarrow> string" where
  "str_int i = (if i < 0 then CHR ''-'' # str_nat (nat (- i)) else str_nat (nat i))"

text \<open>The dictionary \<open>self.datatype_mapping\<close> built by \<open>__init__\<close>.\<close>

definition datatype_mapping :: "(string \<times> string) list" where
  "datatype_mapping =
     [(''int'', ''INT''),
      (''bigint'', ''BIGINT''),
      (''smallint'', ''SMALLINT''),
      (''tinyint'', ''TINYINT''),
      (''bit'', ''BOOLEAN''),
      (''decimal'', ''DECIMAL''),
      (''numeric'', ''DECIMAL''),
      (''money'', ''DECIMAL(19,4)''),
      (''float'', ''DOUBLE''),
      (''real'', ''FLOAT''),
      (''datetime'', ''DATETIME''),
      (''datetime2'', ''DATETIME''),
      (''date'', ''DATE''),
      (''time'', ''TIME''),
      (''varchar'', ''VARCHAR''),
      (''nvarchar'', ''VARCHAR''),
      (''char'', ''CHAR''),
      (''nchar'', ''CHAR''),
      (''text'', ''TEXT''),
      (''ntext'', ''LONGTEXT''),
      (''uniqueidentifier'', ''VARCHAR(36)'')]"

text \<open>\<open>dict.get(key, default)\<close>.\<close>

definition dict_get :: "('k \<times> 'v) list \<Rightarrow> 'k \<Rightarrow> 'v \<Rightarrow> 'v" where
  "dict_get d k dflt = (case map_of d k of None \<Rightarrow> dflt | Some v \<Rightarrow> v)"

text \<open>
  Truthiness of an \<open>Optional[int]\<close>: \<open>None\<close> and \<open>0\<close> are false.
\<close>

definition truthy :: "int option \<Rightarrow> bool" where
  "truthy v = (case v of None \<Rightarrow> False | Some n \<Rightarrow> n \<noteq> 0)"

definition convert_datatype :: "string \<Rightarrow> int option \<Rightarrow> int option \<Rightarrow> int option \<Rightarrow> string" where
  "convert_datatype mssql_type len precision scale =
     (let mssql_type_lower = lower mssql_type
      in if mssql_type_lower \<in> set [''decimal'', ''numeric''] then
           (if truthy precision \<and> scale \<noteq> None
            then ''DECIMAL('' @ str_int (the precision) @ '','' @ str_int (the scale) @ '')''
            else ''DECIMAL(10,2)'')
         else if mssql_type_lower \<in> set [''varchar'', ''nvarchar''] then
           (if truthy len \<and> the len > 0
            then (if the len > 16383 then ''TEXT''
                  else ''VARCHAR('' @ str_int (the len) @ '')'')
            else ''TEXT'')
         else if mssql_type_lower \<in> set [''char'', ''nchar''] then
           (if truthy len \<and> the len > 0
            then (if the len > 255 then ''VARCHAR('' @ str_int (the len) @ '')''
                  else ''CHAR('' @ str_int (the len) @ '')'')
            else ''CHAR(1)'')
         else dict_get datatype_mapping mssql_type_lower ''TEXT'')"

section \<open>Target connection: the driver calls of the transfer engine\<close>

text \<open>
  The target database is reached through a connection opened with \<open>autocommit=False\<close>.
  The model keeps the rows of the target table that other sessions can see
  (\<open>committed\<close>), the rows staged in the open transaction (\<open>pending\<close>) and the
  calls made on the connection and its cursor, in order. A page is written as the list
  of its rows, after \<open>preprocess_data\<close> and the per-value conversion of
  \<open>insert_batch_to_mariadb\<close>: both rewrite scalars inside a row and keep the number
  and the order of the rows.

  Whether the server takes a row is a parameter \<open>acc\<close>: it sees the rows already in
  the table (committed and staged) and the new row, so that duplicate keys, truncation
  and range errors are all instances. A rejected row raises in the driver; the rows of
  the same call that came before it stay staged until the transaction ends.
\<close>

datatype 'r call = Execute 'r | ExecuteMany "'r list" | Commit | Rollback | Close

record 'r connection =
  committed :: "'r list"
  pending :: "'r list"
  calls :: "'r call list"

definition execute ::
  "('r list \<Rightarrow> 'r \<Rightarrow> bool) \<Rightarrow> 'r \<Rightarrow> 'r connection \<Rightarrow> bool \<times> 'r connection" where
  "execute acc r c =
     (let c1 = c\<lparr>calls := calls c @ [Execute r]\<rparr>
      in if acc (committed c @ pending c) r
         then (True, c1\<lparr>pending := pending c @ [r]\<rparr>)
         else (False, c1))"

fun stage ::
  "('r list \<Rightarrow> 'r \<Rightarrow> bool) \<Rightarrow> 'r list \<Rightarrow> 'r connection \<Rightarrow> bool \<times> 'r connection" where
  "stage acc [] c = (True, c)"
| "stage acc (r # rs) c =
     (if acc (committed c @ pending c) r
      then stage acc rs (c\<lparr>pending := pending c @ [r]\<rparr>)
      else (False, c))"

definition executemany ::
  "('r list \<Rightarrow> 'r \<Rightarrow> bool) \<Rightarrow> 'r list \<Rightarrow> 'r connection \<Rightarrow> bool \<times> 'r connection" where
  "executemany acc rs c = stage acc rs (c\<lparr>calls := calls c @ [ExecuteMany rs]\<rparr>)"

text \<open>
  \<open>commit\<close> makes the staged rows visible, unless the server refuses (\<open>cok\<close>), in
  which case it raises. \<open>rollback\<close> drops the staged rows; so does \<open>close\<close> on a
  connection without autocommit.
\<close>

definition commit :: "('r list \<Rightarrow> bool) \<Rightarrow> 'r connection \<Rightarrow> bool \<times> 'r connection" where
  "commit cok c =
     (let c1 = c\<lparr>calls := calls c @ [Commit]\<rparr>
      in if cok (committed c @ pending c)
         then (True, c1\<lparr>committed := committed c @ pending c, pending := []\<rparr>)
         else (False, c1))"

definition rollback :: "'r connection \<Rightarrow> 'r connection" where
  "rollback c = c\<lparr>pending := [], calls := calls c @ [Rollback]\<rparr>"

definition close :: "'r connection \<Rightarrow> 'r connection" where
  "close c = c\<lparr>pending := [], calls := calls c @ [Close]\<rparr>"

definition fresh :: "'r list \<Rightarrow> 'r connection" where
  "fresh tbl = \<lparr>committed = tbl, pending = [], calls = []\<rparr>"

section \<open>Batched insert: \<open>insert_batch_to_mariadb\<close>\<close>

definition chunk_size :: nat where
  "chunk_size = 100"

text \<open>
  The loop \<open>for i in range(0, len(data_tuples), chunk_size)\<close>; an exception of the
  driver leaves it and the function returns \<open>False\<close>.
\<close>

function insert_chunks ::
  "('r list \<Rightarrow> 'r \<Rightarrow> bool) \<Rightarrow> 'r list \<Rightarrow> nat \<Rightarrow> 'r connection \<Rightarrow> bool \<times> 'r connection" where
  "insert_chunks acc data_tuples i c =
     (if i < length data_tuples then
        (let chunk = take chunk_size (drop i data_tuples);
             (ok, c1) = executemany acc chunk c
         in if ok then insert_chunks acc data_tuples (i + chunk_size) c1 else (False, c1))
      else (True, c))"
  by pat_completeness auto
termination
  by (relation "measure (\<lambda>(acc, d, i, c). length d - i)") (auto simp: chunk_size_def)

declare insert_chunks.simps [simp del]

definition insert_batch_to_mariadb ::
  "('r list \<Rightarrow> 'r \<Rightarrow> bool) \<Rightarrow> 'r list \<Rightarrow> 'r connection \<Rightarrow> bool \<times> 'r connection" where
  "insert_batch_to_mariadb acc data_tuples c =
     (if data_tuples = [] then (True, c)
      else if length data_tuples = 1 then execute acc (data_tuples ! 0) c
      else if length data_tuples \<le> 100 then executemany acc data_tuples c
      else insert_chunks acc data_tuples 0 c)"

section \<open>Table transfer: \<open>migrate_table_data\<close>\<close>

text \<open>
  The surroundings of one table transfer. \<open>source_up\<close> and \<open>target_up\<close> say
  whether \<open>create_mssql_engine\<close> and \<open>connect_mariadb\<close> return a connection,
  \<open>count_fails\<close> whether the count query raises. The source table is a list of rows
  that does not change during the transfer, in the order of the paging query, and
  \<open>SELECT COUNT(*)\<close> returns its length. \<open>read_fails\<close> says at which offsets
  \<open>pd.read_sql\<close> raises; the source server also rejects a page query whose
  \<open>FETCH NEXT\<close> count is not positive. \<open>accepts\<close> and \<open>commit_ok\<close> are the
  answers of the target server to an inserted row and to a commit.
\<close>

record 'r env =
  source_up :: bool
  target_up :: bool
  source_rows :: "'r list"
  count_fails :: bool
  read_fails :: "int \<Rightarrow> bool"
  batch_size :: int
  accepts :: "'r list \<Rightarrow> 'r \<Rightarrow> bool"
  commit_ok :: "'r list \<Rightarrow> bool"

definition read_sql :: "'r env \<Rightarrow> int \<Rightarrow> 'r list option" where
  "read_sql e offset =
     (if read_fails e offset \<or> batch_size e \<le> 0 then None
      else Some (take (nat (batch_size e)) (drop (nat offset) (source_rows e))))"

text \<open>The commit after the loop, with its own \<open>try\<close>.\<close>

definition final_commit :: "'r env \<Rightarrow> 'r connection \<Rightarrow> bool \<times> 'r connection" where
  "final_commit e c =
     (let (ok, c1) = commit (commit_ok e) c
      in if ok then (True, close c1) else (False, close (rollback c1)))"

text \<open>
  The \<open>while offset < total_records\<close> loop. \<open>migrated_count\<close> and the timing are
  only logged and are left out. Every exception inside a pass (the page query, the
  commit) is caught by the inner \<open>except\<close>: roll back, close, return \<open>False\<close>.
\<close>

function migrate_loop ::
  "'r env \<Rightarrow> int \<Rightarrow> int \<Rightarrow> int \<Rightarrow> 'r connection \<Rightarrow> bool \<times> 'r connection" where
  "migrate_loop e total_records offset batch_number c =
     (if offset < total_records then
        (let batch_number = batch_number + 1
         in case read_sql e offset of
              None \<Rightarrow> (False, close (rollback c))
            | Some df \<Rightarrow>
                if df = [] then final_commit e c
                else
                  (let (success, c1) = insert_batch_to_mariadb (accepts e) df c
                   in if success then
                        (if batch_number mod 50 = 0 \<or> offset + batch_size e \<ge> total_records then
                           (let (ok, c2) = commit (commit_ok e) c1
                            in if ok
                               then migrate_loop e total_records (offset + batch_size e) batch_number c2
                               else (False, close (rollback c2)))
                         else migrate_loop e total_records (offset + batch_size e) batch_number c1)
                      else (False, close (rollback c1))))
      else final_commit e c)"
  by pat_completeness auto
termination
  by (relation "measure (\<lambda>(e, t, off, b, c). nat (t - off))")
     (auto simp: read_sql_def split: if_splits)

declare migrate_loop.simps [simp del]

definition migrate_table_data :: "'r env \<Rightarrow> 'r connection \<Rightarrow> bool \<times> 'r connection" where
  "migrate_table_data e c =
     (if \<not> source_up e \<or> \<not> target_up e then (False, c)
      else if count_fails e then (False, close (rollback c))
      else
        (let total_records = int (length (source_rows e))
         in if total_records = 0 then (True, close c)
            else migrate_loop e total_records 0 0 c))"

section \<open>Row-by-row fallback: \<open>fallback_single_insert\<close>\<close>

text \<open>
  A value of a row is \<open>None\<close>, a string or something else. The fallback keeps the
  value in all three cases (\<open>None\<close> and NaN become \<open>None\<close>).
\<close>

datatype 'a cell = Null | Str string | Val 'a

definition process_value :: "'a cell \<Rightarrow> 'a cell" where
  "process_value v = (case v of Null \<Rightarrow> Null | Str s \<Rightarrow> Str s | Val a \<Rightarrow> Val a)"

text \<open>
  The dictionary \<open>problem_data\<close> of a failing row, as the list of its items: a string
  longer than 50 characters is cut to its first 47 followed by three dots.
\<close>

definition shorten :: "'a cell \<Rightarrow> 'a cell" where
  "shorten val =
     (case val of
        Str s \<Rightarrow> if length s > 50 then Str (take 47 s @ ''...'') else Str s
      | _ \<Rightarrow> val)"

definition problem_data :: "string list \<Rightarrow> 'a cell list \<Rightarrow> (string \<times> 'a cell) list" where
  "problem_data columns row = map (\<lambda>(col, val). (col, shorten val)) (zip columns row)"

record 'a fallback_state =
  success_count :: nat
  error_count :: nat
  error_log :: "(nat \<times> (string \<times> 'a cell) list) list"
  cursor :: "'a cell list connection"

text \<open>
  The loop over \<open>df.iterrows()\<close>, with the index of the row. Only the driver's error
  is caught; it counts, is logged with the row for the first five, and ends the loop
  once the count is above ten.
\<close>

fun fallback_loop ::
  "('a cell list list \<Rightarrow> 'a cell list \<Rightarrow> bool) \<Rightarrow> string list \<Rightarrow> 'a cell list list \<Rightarrow> nat \<Rightarrow>
   'a fallback_state \<Rightarrow> 'a fallback_state" where
  "fallback_loop acc columns [] index s = s"
| "fallback_loop acc columns (row # rest) index s =
     (let processed_row = map process_value row;
          (ok, c1) = execute acc processed_row (cursor s)
      in if ok then
           fallback_loop acc columns rest (index + 1)
             (s\<lparr>success_count := success_count s + 1, cursor := c1\<rparr>)
         else
           (let n = error_count s + 1;
                s1 = s\<lparr>error_count := n, cursor := c1,
                       error_log := (if n \<le> 5
                                     then error_log s @ [(index + 1, problem_data columns row)]
                                     else error_log s)\<rparr>
            in if n > 10 then s1 else fallback_loop acc columns rest (index + 1) s1))"

definition fallback_single_insert ::
  "('a cell list list \<Rightarrow> 'a cell list \<Rightarrow> bool) \<Rightarrow> string list \<Rightarrow> 'a cell list list \<Rightarrow>
   'a cell list connection \<Rightarrow> bool \<times> 'a fallback_state" where
  "fallback_single_insert acc columns df c =
     (let s = fallback_loop acc columns df 0
                \<lparr>success_count = 0, error_count = 0, error_log = [], cursor = c\<rparr>
      in (error_count s = 0, s))"

text \<open>
  For comparison with the loop above, written from the description of the fallback and
  not from its code: the rows of a page, each with its position, that the server
  rejects when the rows are offered one after another without any cap, every accepted
  row joining the table \<open>tbl\<close> before the next is offered.
\<close>

fun spec_rejected_rows ::
  "('a cell list list \<Rightarrow> 'a cell list \<Rightarrow> bool) \<Rightarrow> 'a cell list list \<Rightarrow> 'a cell list list \<Rightarrow> nat \<Rightarrow>
   (nat \<times> 'a cell list) list" where
  "spec_rejected_rows acc tbl [] index = []"
| "spec_rejected_rows acc tbl (row # rest) index =
     (if acc tbl (map process_value row)
      then spec_rejected_rows acc (tbl @ [map process_value row]) rest (index + 1)
      else (index, row) # spec_rejected_rows acc tbl rest (index + 1))"

section \<open>Validator\<close>

text \<open>
  What the validator's queries on one table give back through a cursor: the value
  returned, or an exception of the driver. \<open>extremes\<close> is the \<open>fetchone()\<close> after
  the \<open>MIN\<close>/\<open>MAX\<close> query on one column, \<open>None\<close> or the pair, each of them
  \<open>None\<close> for SQL \<open>NULL\<close>. \<open>column_types\<close> are the pairs
  (\<open>COLUMN_NAME\<close>, \<open>DATA_TYPE\<close>) of the table in \<open>INFORMATION_SCHEMA.COLUMNS\<close>.
\<close>

datatype 'a outcome = Raises | Returns 'a

record ('r, 'v) table_view =
  count_rows :: "int outcome"
  sample_rows :: "'r list outcome"
  column_types :: "(string \<times> string) list outcome"
  extremes :: "string \<Rightarrow> ('v option \<times> 'v option) option outcome"

text \<open>
  \<open>validate_sample_data\<close>: the list \<open>columns\<close> it builds is never used. The
  \<open>except\<close> returns \<open>False\<close>.
\<close>

definition validate_sample_data :: "('r, 'v) table_view \<Rightarrow> ('q, 'w) table_view \<Rightarrow> bool" where
  "validate_sample_data mssql mariadb =
     (case sample_rows mssql of
        Raises \<Rightarrow> False
      | Returns mssql_sample \<Rightarrow>
          if mssql_sample = [] then True
          else (case sample_rows mariadb of
                  Raises \<Rightarrow> False
                | Returns mariadb_sample \<Rightarrow> length mssql_sample = length mariadb_sample))"

definition numeric_types :: "string list" where
  "numeric_types = [''int'', ''bigint'', ''decimal'', ''numeric'', ''float'', ''real'', ''money'']"

text \<open>The loop of \<open>validate_extreme_values\<close> over the numeric columns.\<close>

fun extremes_loop ::
  "('r, 'v) table_view \<Rightarrow> ('q, 'v) table_view \<Rightarrow> (string \<times> string) list \<Rightarrow> bool" where
  "extremes_loop mssql mariadb [] = True"
| "extremes_loop mssql mariadb ((col_name, data_type) # rest) =
     (case extremes mssql col_name of
        Raises \<Rightarrow> False
      | Returns mssql_extremes \<Rightarrow>
          (case extremes mariadb col_name of
             Raises \<Rightarrow> False
           | Returns mariadb_extremes \<Rightarrow>
               (case (mssql_extremes, mariadb_extremes) of
                  (Some (smin, smax), Some (tmin, tmax)) \<Rightarrow>
                    if smin \<noteq> tmin \<or> smax \<noteq> tmax then False
                    else extremes_loop mssql mariadb rest
                | _ \<Rightarrow> extremes_loop mssql mariadb rest)))"

definition validate_extreme_values :: "('r, 'v) table_view \<Rightarrow> ('q, 'v) table_view \<Rightarrow> bool" where
  "validate_extreme_values mssql mariadb =
     (case column_types mssql of
        Raises \<Rightarrow> False
      | Returns cols \<Rightarrow>
          extremes_loop mssql mariadb
            (filter (\<lambda>(col_name, data_type). data_type \<in> set numeric_types) cols))"

record validation_result =
  record_count_match :: bool
  mssql_count :: int
  mariadb_count :: int
  sample_data_match :: bool
  extreme_values_match :: bool
  data_consistency :: bool

definition initial_result :: validation_result where
  "initial_result =
     \<lparr>record_count_match = False, mssql_count = 0, mariadb_count = 0,
      sample_data_match = False, extreme_values_match = False, data_consistency = False\<rparr>"

text \<open>
  \<open>validate_single_table\<close>: the two connections are \<open>None\<close> when connecting failed.
  An exception leaves the \<open>try\<close> with the result as filled so far.
\<close>

definition validate_single_table ::
  "('r, 'v) table_view option \<Rightarrow> ('q, 'v) table_view option \<Rightarrow> validation_result" where
  "validate_single_table mssql_conn mariadb_conn =
     (let result = initial_result
      in case (mssql_conn, mariadb_conn) of
           (Some mssql, Some mariadb) \<Rightarrow>
             (case count_rows mssql of
                Raises \<Rightarrow> result
              | Returns n \<Rightarrow>
                  (let result = result\<lparr>mssql_count := n\<rparr>
                   in case count_rows mariadb of
                        Raises \<Rightarrow> result
                      | Returns m \<Rightarrow>
                          (let result = result\<lparr>mariadb_count := m\<rparr>;
                               result = result\<lparr>record_count_match :=
                                          (mssql_count result = mariadb_count result)\<rparr>;
                               result =
                                 (if record_count_match result \<and> mssql_count result > 0
                                  then result\<lparr>sample_data_match := validate_sample_data mssql mariadb,
                                              extreme_values_match := validate_extreme_values mssql mariadb\<rparr>
                                  else result)
                           in result\<lparr>data_consistency :=
                                       (record_count_match result \<and> sample_data_match result \<and>
                                        extreme_values_match result)\<rparr>)))
         | _ \<Rightarrow> result)"

text \<open>
  \<open>validate_migration_complete\<close>: the dictionary of the results by table name, the
  overall flag, and the tables for which \<open>validate_single_table\<close> ran, which is where
  the connections are opened and the queries issued. \<open>db\<close> gives the two connections
  \<open>validate_single_table\<close> obtains for a table. Writing the report file is left out.
\<close>

record validation_report =
  tables :: "string \<rightharpoonup> validation_result"
  overall_success :: bool
  queried :: "string list"

definition memo_result :: validation_result where
  "memo_result =
     \<lparr>record_count_match = True, mssql_count = 0, mariadb_count = 0,
      sample_data_match = True, extreme_values_match = True, data_consistency = True\<rparr>"

fun validate_tables ::
  "(string \<Rightarrow> ('r, 'v) table_view option \<times> ('q, 'v) table_view option) \<Rightarrow> string list \<Rightarrow>
   validation_report \<Rightarrow> validation_report" where
  "validate_tables db [] rep = rep"
| "validate_tables db (table_name # rest) rep =
     (if table_name = ''Memo'' then
        validate_tables db rest (rep\<lparr>tables := (tables rep)(table_name \<mapsto> memo_result)\<rparr>)
      else
        (let table_result = validate_single_table (fst (db table_name)) (snd (db table_name))
         in validate_tables db rest
              (rep\<lparr>tables := (tables rep)(table_name \<mapsto> table_result),
                   overall_success := (if \<not> data_consistency table_result then False
                                       else overall_success rep),
                   queried := queried rep @ [table_name]\<rparr>)))"

definition validate_migration_complete ::
  "(string \<Rightarrow> ('r, 'v) table_view option \<times> ('q, 'v) table_view option) \<Rightarrow> string list \<Rightarrow>
   validation_report" where
  "validate_migration_complete db mssql_tables =
     validate_tables db mssql_tables \<lparr>tables = Map.empty, overall_success = True, queried = []\<rparr>"

section \<open>Orchestrator: \<open>migrate_full_database\<close>\<close>

text \<open>
  The operations the orchestrator calls are parameters: the table list of the source
  (\<open>[]\<close> when it cannot be read), the schema of a table (columns, primary key, foreign
  keys), the creation of the target table and the transfer of its data.
\<close>

record ('c, 'f) operations =
  op_tables :: "string list"
  op_schema :: "string \<Rightarrow> 'c list \<times> string list \<times> 'f list"
  op_create :: "string \<Rightarrow> 'c list \<Rightarrow> string list \<Rightarrow> 'f list \<Rightarrow> bool"
  op_migrate :: "string \<Rightarrow> string list \<Rightarrow> bool"

definition table_order :: "string list" where
  "table_order =
     [''CompanyOwner'', ''Factory'', ''Announcement'', ''ViolationCase'', ''Memo'',
      ''AllowRework'', ''Appeal'', ''IllegalProfit'', ''Inspection'', ''Detail'']"

record migration_state =
  structure_success_count :: nat
  data_success_count :: nat
  failed_tables :: "string list"
  attempted :: "string list"

text \<open>First phase: the structures of the tables of \<open>table_order\<close>.\<close>

fun create_structures :: "('c, 'f) operations \<Rightarrow> string list \<Rightarrow> nat \<Rightarrow> nat" where
  "create_structures ops [] n = n"
| "create_structures ops (table_name # rest) n =
     (if table_name \<in> set (op_tables ops) then
        (let (columns, primary_keys, foreign_keys) = op_schema ops table_name
         in if columns = [] then create_structures ops rest n
            else if op_create ops table_name columns primary_keys foreign_keys
                 then create_structures ops rest (n + 1)
                 else create_structures ops rest n)
      else create_structures ops rest n)"

text \<open>Second phase: the data of the tables of \<open>table_order\<close>.\<close>

fun migrate_ordered :: "('c, 'f) operations \<Rightarrow> string list \<Rightarrow> migration_state \<Rightarrow> migration_state" where
  "migrate_ordered ops [] st = st"
| "migrate_ordered ops (table_name # rest) st =
     (if table_name \<in> set (op_tables ops) then
        (let (columns, primary_keys, foreign_keys) = op_schema ops table_name;
             st = st\<lparr>attempted := attempted st @ [table_name]\<rparr>
         in if op_migrate ops table_name primary_keys
            then migrate_ordered ops rest (st\<lparr>data_success_count := data_success_count st + 1\<rparr>)
            else migrate_ordered ops rest (st\<lparr>failed_tables := failed_tables st @ [table_name]\<rparr>))
      else migrate_ordered ops rest st)"

text \<open>The tables of the source that are not in \<open>table_order\<close>.\<close>

fun migrate_remaining :: "('c, 'f) operations \<Rightarrow> string list \<Rightarrow> migration_state \<Rightarrow> migration_state" where
  "migrate_remaining ops [] st = st"
| "migrate_remaining ops (table_name # rest) st =
     (let (columns, primary_keys, foreign_keys) = op_schema ops table_name
      in if columns \<noteq> [] then
           (if op_create ops table_name columns primary_keys foreign_keys then
              (let st = st\<lparr>structure_success_count := structure_success_count st + 1,
                           attempted := attempted st @ [table_name]\<rparr>
               in if op_migrate ops table_name primary_keys
                  then migrate_remaining ops rest (st\<lparr>data_success_count := data_success_count st + 1\<rparr>)
                  else migrate_remaining ops rest (st\<lparr>failed_tables := failed_tables st @ [table_name]\<rparr>))
            else migrate_remaining ops rest st)
         else migrate_remaining ops rest st)"

definition no_migration :: migration_state where
  "no_migration =
     \<lparr>structure_success_count = 0, data_success_count = 0, failed_tables = [], attempted = []\<rparr>"

definition migrate_full_database :: "('c, 'f) operations \<Rightarrow> bool \<times> migration_state" where
  "migrate_full_database ops =
     (let all_tables = op_tables ops
      in if all_tables = [] then (False, no_migration)
         else
           (let structure_success_count = create_structures ops table_order 0
            in if structure_success_count = 0 then (False, no_migration)
               else
                 (let st = migrate_ordered ops table_order
                             (no_migration\<lparr>structure_success_count := structure_success_count\<rparr>);
                      remaining_tables = filter (\<lambda>t. t \<notin> set table_order) all_tables;
                      st = migrate_remaining ops remaining_tables st
                  in (data_success_count st > 0, st))))"

section \<open>Properties of the type mapper\<close>

lemma datatype_mapping_values_nonempty:
  "(k, v) \<in> set datatype_mapping \<Longrightarrow> v \<noteq> []"
  by (auto simp: datatype_mapping_def)

lemma dict_get_datatype_mapping_nonempty:
  "dict_get datatype_mapping k ''TEXT'' \<noteq> []"
  by (auto simp: dict_get_def split: option.splits dest!: map_of_SomeD datatype_mapping_values_nonempty)

lemma convert_datatype_nonempty: "convert_datatype t l p s \<noteq> []"
  unfolding convert_datatype_def Let_def
  by (simp add: dict_get_datatype_mapping_nonempty del: set_simps)

lemma convert_datatype_unknown:
  "lower t \<notin> fst ` set datatype_mapping \<Longrightarrow> convert_datatype t l p s = ''TEXT''"
proof -
  assume a: "lower t \<notin> fst ` set datatype_mapping"
  then have n: "map_of datatype_mapping (lower t) = None"
    by (simp add: map_of_eq_None_iff)
  from a have "lower t \<notin> set [''decimal'', ''numeric'']"
    "lower t \<notin> set [''varchar'', ''nvarchar'']" "lower t \<notin> set [''char'', ''nchar'']"
    by (auto simp: datatype_mapping_def)
  then show ?thesis
    unfolding convert_datatype_def Let_def dict_get_def using n by (simp del: set_simps)
qed

lemma convert_datatype_examples:
  "convert_datatype ''varchar'' (Some 20000) None None = ''TEXT''"
  "convert_datatype ''varchar'' (Some 50) None None = ''VARCHAR(50)''"
  "convert_datatype ''decimal'' None (Some 10) (Some 2) = ''DECIMAL(10,2)''"
  "convert_datatype ''char'' (Some 300) None None = ''VARCHAR(300)''"
  by code_simp+

text \<open>
  C3. \<open>convert_datatype\<close> is a total function of its four arguments with no failing
  branch. For every type name, length, precision and scale it returns a non-empty
  string; a name that, lowercased, is not a key of the mapping table gives \<open>TEXT\<close>;
  and the four examples evaluate as stated.
\<close>

theorem convert_datatype_total:
  "convert_datatype t l p s \<noteq> [] \<and>
   (lower t \<notin> fst ` set datatype_mapping \<longrightarrow> convert_datatype t l p s = ''TEXT'') \<and>
   convert_datatype ''varchar'' (Some 20000) None None = ''TEXT'' \<and>
   convert_datatype ''varchar'' (Some 50) None None = ''VARCHAR(50)'' \<and>
   convert_datatype ''decimal'' None (Some 10) (Some 2) = ''DECIMAL(10,2)'' \<and>
   convert_datatype ''char'' (Some 300) None None = ''VARCHAR(300)''"
  using convert_datatype_nonempty convert_datatype_unknown convert_datatype_examples
  by blast

theorem convert_datatype_total_witness:
  "lower ''GEOGRAPHY'' \<notin> fst ` set datatype_mapping \<and>
   convert_datatype ''GEOGRAPHY'' (Some 5) None None = ''TEXT''"
proof -
  have h: "lower ''GEOGRAPHY'' \<notin> fst ` set datatype_mapping"
    by code_simp
  have "convert_datatype ''GEOGRAPHY'' (Some 5) None None = ''TEXT''"
    by (rule convert_datatype_total
          [of "''GEOGRAPHY''" "Some 5" None None, THEN conjunct2, THEN conjunct1, THEN mp, OF h])
  with h show ?thesis by (rule conjI)
qed

section \<open>Properties of the batched insert\<close>

lemma stage_calls: "calls (snd (stage acc rs c)) = calls c"
  by (induction rs arbitrary: c) auto

lemma stage_committed: "committed (snd (stage acc rs c)) = committed c"
  by (induction rs arbitrary: c) auto

lemma stage_ok_pending: "fst (stage acc rs c) \<Longrightarrow> pending (snd (stage acc rs c)) = pending c @ rs"
  by (induction rs arbitrary: c) (auto split: if_splits)

lemma executemany_calls: "calls (snd (executemany acc rs c)) = calls c @ [ExecuteMany rs]"
  by (simp add: executemany_def stage_calls)

lemma execute_calls: "calls (snd (execute acc r c)) = calls c @ [Execute r]"
  by (simp add: execute_def Let_def)

lemma insert_chunks_calls:
  "fst (insert_chunks acc d i c) \<Longrightarrow>
   \<exists>chunks. calls (snd (insert_chunks acc d i c)) = calls c @ map ExecuteMany chunks \<and>
     concat chunks = drop i d \<and>
     (\<forall>ch \<in> set chunks. 0 < length ch \<and> length ch \<le> 100) \<and>
     (\<forall>ch \<in> set (butlast chunks). length ch = 100)"
proof (induction acc d i c rule: insert_chunks.induct)
  case (1 acc d i c)
  show ?case
  proof (cases "i < length d")
    case False
    then have "insert_chunks acc d i c = (True, c)" by (simp add: insert_chunks.simps)
    with False show ?thesis by (intro exI[of _ "[]"]) simp
  next
    case True
    define chunk where "chunk = take chunk_size (drop i d)"
    obtain ok c1 where e: "executemany acc chunk c = (ok, c1)" by (cases "executemany acc chunk c")
    have ok: ok using "1.prems" True e chunk_def
      by (simp add: insert_chunks.simps[of acc d i] Let_def split: if_splits)
    have step: "insert_chunks acc d i c = insert_chunks acc d (i + chunk_size) c1"
      using True e ok chunk_def by (simp add: insert_chunks.simps[of acc d i] Let_def)
    have c1: "calls c1 = calls c @ [ExecuteMany chunk]"
      using executemany_calls[of acc chunk c] e by simp
    from "1.IH"[OF True chunk_def refl e[symmetric] ok] "1.prems" step
    obtain chunks where ch: "calls (snd (insert_chunks acc d (i + chunk_size) c1)) = calls c1 @ map ExecuteMany chunks"
      "concat chunks = drop (i + chunk_size) d"
      "\<forall>ch \<in> set chunks. 0 < length ch \<and> length ch \<le> 100"
      "\<forall>ch \<in> set (butlast chunks). length ch = 100"
      by auto
    have len: "0 < length chunk \<and> length chunk \<le> 100"
      using True by (simp add: chunk_def chunk_size_def)
    have cat: "concat (chunk # chunks) = drop i d"
      using ch(2) by (simp add: chunk_def add.commute[of i] flip: drop_drop)
    have full: "chunks \<noteq> [] \<Longrightarrow> length chunk = 100"
    proof -
      assume "chunks \<noteq> []"
      then obtain x xs where "chunks = x # xs" by (cases chunks) auto
      with ch(3) have "concat chunks \<noteq> []" by auto
      with ch(2) have "i + chunk_size < length d" by simp
      then show ?thesis by (simp add: chunk_def chunk_size_def)
    qed
    have bl: "\<forall>ch \<in> set (butlast (chunk # chunks)). length ch = 100"
      using ch(4) full by auto
    show ?thesis
      unfolding step
      apply (rule exI[of _ "chunk # chunks"])
      using ch(1) c1 cat len ch(3) bl by simp
  qed
qed

lemma insert_101:
  assumes "length rows = 101" "fst (insert_batch_to_mariadb acc rows c)"
  shows "calls (snd (insert_batch_to_mariadb acc rows c)) =
         calls c @ [ExecuteMany (take 100 rows), ExecuteMany (drop 100 rows)]"
proof -
  have r: "insert_batch_to_mariadb acc rows c = insert_chunks acc rows 0 c"
    using assms(1) by (auto simp: insert_batch_to_mariadb_def)
  obtain ok1 c1 where e1: "executemany acc (take 100 rows) c = (ok1, c1)"
    by (cases "executemany acc (take 100 rows) c")
  obtain ok2 c2 where e2: "executemany acc (drop 100 rows) c1 = (ok2, c2)"
    by (cases "executemany acc (drop 100 rows) c1")
  have t: "take 100 (drop 100 rows) = drop 100 rows" using assms(1) by simp
  have s1: "insert_chunks acc rows 0 c = (if ok1 then insert_chunks acc rows 100 c1 else (False, c1))"
    using insert_chunks.simps[of acc rows 0 c] assms(1) e1 by (simp add: chunk_size_def Let_def)
  have s2: "insert_chunks acc rows 100 c1 = (if ok2 then insert_chunks acc rows 200 c2 else (False, c2))"
    using insert_chunks.simps[of acc rows 100 c1] assms(1) e2 t by (simp add: chunk_size_def Let_def)
  have s3: "insert_chunks acc rows 200 c2 = (True, c2)"
    using insert_chunks.simps[of acc rows 200 c2] assms(1) by simp
  have u: "insert_chunks acc rows 0 c = (if ok1 then (if ok2 then (True, c2) else (False, c2)) else (False, c1))"
    using s1 s2 s3 by simp
  from assms(2) r u have k: "ok1" "ok2" by (auto split: if_splits)
  have "calls c1 = calls c @ [ExecuteMany (take 100 rows)]"
    using executemany_calls[of acc "take 100 rows" c] e1 by simp
  moreover have "calls c2 = calls c1 @ [ExecuteMany (drop 100 rows)]"
    using executemany_calls[of acc "drop 100 rows" c1] e2 by simp
  ultimately show ?thesis using r u k by simp
qed

text \<open>
  C4. The driver calls of \<open>insert_batch_to_mariadb\<close> on a page: one \<open>execute\<close>
  for a page of one row; one \<open>executemany\<close> with the whole page for 2 to 100 rows;
  for more than 100 rows, when no call fails, one \<open>executemany\<close> per chunk, the
  chunks being consecutive pieces of the page, none empty or longer than 100, all but
  the last of exactly 100 rows; for 101 rows these are the first 100 rows and the last
  row.
\<close>

theorem insert_batch_to_mariadb_calls:
  "(length rows = 1 \<longrightarrow>
      calls (snd (insert_batch_to_mariadb acc rows c)) = calls c @ [Execute (rows ! 0)]) \<and>
   (2 \<le> length rows \<and> length rows \<le> 100 \<longrightarrow>
      calls (snd (insert_batch_to_mariadb acc rows c)) = calls c @ [ExecuteMany rows]) \<and>
   (100 < length rows \<and> fst (insert_batch_to_mariadb acc rows c) \<longrightarrow>
      (\<exists>chunks. calls (snd (insert_batch_to_mariadb acc rows c)) = calls c @ map ExecuteMany chunks \<and>
         concat chunks = rows \<and>
         (\<forall>ch \<in> set chunks. 0 < length ch \<and> length ch \<le> 100) \<and>
         (\<forall>ch \<in> set (butlast chunks). length ch = 100))) \<and>
   (length rows = 101 \<and> fst (insert_batch_to_mariadb acc rows c) \<longrightarrow>
      calls (snd (insert_batch_to_mariadb acc rows c)) =
        calls c @ [ExecuteMany (take 100 rows), ExecuteMany (drop 100 rows)])"
proof (intro conjI impI)
  assume "length rows = 1"
  then show "calls (snd (insert_batch_to_mariadb acc rows c)) = calls c @ [Execute (rows ! 0)]"
    by (auto simp: insert_batch_to_mariadb_def execute_calls)
next
  assume "2 \<le> length rows \<and> length rows \<le> 100"
  then show "calls (snd (insert_batch_to_mariadb acc rows c)) = calls c @ [ExecuteMany rows]"
    by (auto simp: insert_batch_to_mariadb_def executemany_calls)
next
  assume a: "100 < length rows \<and> fst (insert_batch_to_mariadb acc rows c)"
  then have r: "insert_batch_to_mariadb acc rows c = insert_chunks acc rows 0 c"
    by (auto simp: insert_batch_to_mariadb_def)
  with a insert_chunks_calls[of acc rows 0 c]
  show "\<exists>chunks. calls (snd (insert_batch_to_mariadb acc rows c)) = calls c @ map ExecuteMany chunks \<and>
         concat chunks = rows \<and>
         (\<forall>ch \<in> set chunks. 0 < length ch \<and> length ch \<le> 100) \<and>
         (\<forall>ch \<in> set (butlast chunks). length ch = 100)"
    by simp
next
  assume "length rows = 101 \<and> fst (insert_batch_to_mariadb acc rows c)"
  then show "calls (snd (insert_batch_to_mariadb acc rows c)) =
        calls c @ [ExecuteMany (take 100 rows), ExecuteMany (drop 100 rows)]"
    using insert_101 by blast
qed

theorem insert_batch_to_mariadb_calls_witness:
  "length [0..<101] = 101 \<and>
   fst (insert_batch_to_mariadb (\<lambda>tbl r. True) [0..<101] (fresh [])) \<and>
   calls (snd (insert_batch_to_mariadb (\<lambda>tbl r. True) [0..<101] (fresh []))) =
     [ExecuteMany [0..<100], ExecuteMany [100]]"
proof -
  have h1: "length [0..<101] = 101" by simp
  have h2: "fst (insert_batch_to_mariadb (\<lambda>tbl r. True) [0..<101] (fresh []))"
    by code_simp
  have "calls (snd (insert_batch_to_mariadb (\<lambda>tbl r. True) [0..<101] (fresh []))) =
        calls (fresh []) @ [ExecuteMany (take 100 [0..<101]), ExecuteMany (drop 100 [0..<101])]"
    by (rule insert_batch_to_mariadb_calls
          [of "[0..<101]" "\<lambda>tbl r. True" "fresh []", THEN conjunct2, THEN conjunct2, THEN conjunct2,
           THEN mp, OF conjI[OF h1 h2]])
  moreover have "take 100 [0..<101] = [0..<100]" "drop 100 [0..<101] = [100::nat]"
    by simp_all
  ultimately show ?thesis using h1 h2 by (simp add: fresh_def)
qed

section \<open>Properties of the table transfer\<close>

lemma stage_fst_cong:
  "committed c @ pending c = committed d @ pending d \<Longrightarrow> fst (stage acc rs c) = fst (stage acc rs d)"
proof (induction rs arbitrary: c d)
  case Nil
  then show ?case by simp
next
  case (Cons r rs)
  have "committed (c\<lparr>pending := pending c @ [r]\<rparr>) @ pending (c\<lparr>pending := pending c @ [r]\<rparr>) =
        committed (d\<lparr>pending := pending d @ [r]\<rparr>) @ pending (d\<lparr>pending := pending d @ [r]\<rparr>)"
    using Cons.prems by (simp flip: append_assoc)
  from Cons.IH[OF this] Cons.prems show ?case by simp
qed

lemma stage_append:
  "stage acc (xs @ ys) c =
     (if fst (stage acc xs c) then stage acc ys (snd (stage acc xs c)) else stage acc xs c)"
  by (induction xs arbitrary: c) auto

lemma executemany_fst: "fst (executemany acc rs c) = fst (stage acc rs c)"
  unfolding executemany_def by (rule stage_fst_cong) simp

lemma executemany_committed: "committed (snd (executemany acc rs c)) = committed c"
  by (simp add: executemany_def stage_committed)

lemma executemany_pending:
  "fst (executemany acc rs c) \<Longrightarrow> pending (snd (executemany acc rs c)) = pending c @ rs"
  using stage_ok_pending[of acc rs "c\<lparr>calls := calls c @ [ExecuteMany rs]\<rparr>"]
  by (simp add: executemany_def)

lemma stage_snd_sum:
  "fst (stage acc rs c) \<Longrightarrow>
   committed (snd (stage acc rs c)) @ pending (snd (stage acc rs c)) = committed c @ pending c @ rs"
  by (simp add: stage_committed stage_ok_pending)

lemma insert_chunks_fst:
  "fst (insert_chunks acc d i c) = fst (stage acc (drop i d) c)"
proof (induction acc d i c rule: insert_chunks.induct)
  case (1 acc d i c)
  show ?case
  proof (cases "i < length d")
    case False
    then show ?thesis by (simp add: insert_chunks.simps[of acc d i])
  next
    case True
    define chunk where "chunk = take chunk_size (drop i d)"
    obtain ok c1 where e: "executemany acc chunk c = (ok, c1)" by (cases "executemany acc chunk c")
    have okeq: "ok = fst (stage acc chunk c)"
      using executemany_fst[of acc chunk c] e by simp
    have split: "drop i d = chunk @ drop (i + chunk_size) d"
      by (simp add: chunk_def add.commute[of i] flip: drop_drop)
    show ?thesis
    proof (cases ok)
      case False
      then have "insert_chunks acc d i c = (False, c1)"
        using True e chunk_def by (simp add: insert_chunks.simps[of acc d i] Let_def)
      moreover have "fst (stage acc (drop i d) c) = fst (stage acc (chunk @ drop (i + chunk_size) d) c)"
        using split by simp
      then have "\<not> fst (stage acc (drop i d) c)"
        using False okeq by (simp add: stage_append)
      ultimately show ?thesis by simp
    next
      case ok: True
      have step: "insert_chunks acc d i c = insert_chunks acc d (i + chunk_size) c1"
        using True e ok chunk_def by (simp add: insert_chunks.simps[of acc d i] Let_def)
      have sum: "committed c1 @ pending c1 =
                 committed (snd (stage acc chunk c)) @ pending (snd (stage acc chunk c))"
        using executemany_committed[of acc chunk c] executemany_pending[of acc chunk c] e ok okeq
        by (simp add: stage_committed stage_ok_pending)
      have "fst (insert_chunks acc d (i + chunk_size) c1) = fst (stage acc (drop (i + chunk_size) d) c1)"
        by (rule "1.IH"[OF True chunk_def refl e[symmetric] ok])
      also have "\<dots> = fst (stage acc (drop (i + chunk_size) d) (snd (stage acc chunk c)))"
        by (rule stage_fst_cong[OF sum])
      also have "\<dots> = fst (stage acc (chunk @ drop (i + chunk_size) d) c)"
        using ok okeq by (simp add: stage_append)
      also have "\<dots> = fst (stage acc (drop i d) c)"
        using split by simp
      finally show ?thesis using step by simp
    qed
  qed
qed

lemma insert_chunks_committed:
  "committed (snd (insert_chunks acc d i c)) = committed c"
proof (induction acc d i c rule: insert_chunks.induct)
  case (1 acc d i c)
  show ?case
  proof (cases "i < length d")
    case False
    then show ?thesis by (simp add: insert_chunks.simps[of acc d i])
  next
    case True
    define chunk where "chunk = take chunk_size (drop i d)"
    obtain ok c1 where e: "executemany acc chunk c = (ok, c1)" by (cases "executemany acc chunk c")
    have cc: "committed c1 = committed c"
      using executemany_committed[of acc chunk c] e by simp
    show ?thesis
    proof (cases ok)
      case False
      then have "insert_chunks acc d i c = (False, c1)"
        using True e chunk_def by (simp add: insert_chunks.simps[of acc d i] Let_def)
      then show ?thesis using cc by simp
    next
      case ok: True
      have step: "insert_chunks acc d i c = insert_chunks acc d (i + chunk_size) c1"
        using True e ok chunk_def by (simp add: insert_chunks.simps[of acc d i] Let_def)
      show ?thesis
        using "1.IH"[OF True chunk_def refl e[symmetric] ok] cc step by simp
    qed
  qed
qed

lemma insert_chunks_pending:
  "fst (insert_chunks acc d i c) \<Longrightarrow> pending (snd (insert_chunks acc d i c)) = pending c @ drop i d"
proof (induction acc d i c rule: insert_chunks.induct)
  case (1 acc d i c)
  show ?case
  proof (cases "i < length d")
    case False
    then show ?thesis by (simp add: insert_chunks.simps[of acc d i])
  next
    case True
    define chunk where "chunk = take chunk_size (drop i d)"
    obtain ok c1 where e: "executemany acc chunk c = (ok, c1)" by (cases "executemany acc chunk c")
    have ok: ok using "1.prems" True e chunk_def
      by (simp add: insert_chunks.simps[of acc d i] Let_def split: if_splits)
    have step: "insert_chunks acc d i c = insert_chunks acc d (i + chunk_size) c1"
      using True e ok chunk_def by (simp add: insert_chunks.simps[of acc d i] Let_def)
    have p1: "pending c1 = pending c @ chunk"
      using executemany_pending[of acc chunk c] e ok by simp
    have split: "drop i d = chunk @ drop (i + chunk_size) d"
      by (simp add: chunk_def add.commute[of i] flip: drop_drop)
    have "pending (snd (insert_chunks acc d (i + chunk_size) c1)) = pending c1 @ drop (i + chunk_size) d"
      using "1.IH"[OF True chunk_def refl e[symmetric] ok] "1.prems" step by simp
    then show ?thesis using step p1 split by simp
  qed
qed

lemma execute_fst: "fst (execute acc r c) = fst (stage acc [r] c)"
  by (simp add: execute_def Let_def)

lemma insert_batch_cases:
  obtains "rows = []" | r where "rows = [r]" | "2 \<le> length rows" "length rows \<le> 100"
  | "100 < length rows"
proof (cases rows)
  case Nil
  then show ?thesis using that by simp
next
  case (Cons r rs)
  show ?thesis
  proof (cases rs)
    case Nil
    with Cons show ?thesis using that(2) by simp
  next
    case (Cons a list)
    then have "2 \<le> length rows" using \<open>rows = r # rs\<close> by simp
    then show ?thesis using that(3,4) by (cases "length rows \<le> 100") auto
  qed
qed

lemma insert_batch_fst:
  "fst (insert_batch_to_mariadb acc rows c) = fst (stage acc rows c)"
proof (cases rows rule: insert_batch_cases)
  case 1
  then show ?thesis by (simp add: insert_batch_to_mariadb_def)
next
  case (2 r)
  then show ?thesis by (simp add: insert_batch_to_mariadb_def execute_def Let_def)
next
  case 3
  then show ?thesis
    using executemany_fst[of acc rows c] by (auto simp: insert_batch_to_mariadb_def)
next
  case 4
  then show ?thesis
    using insert_chunks_fst[of acc rows 0 c] by (auto simp: insert_batch_to_mariadb_def)
qed

lemma insert_batch_committed:
  "committed (snd (insert_batch_to_mariadb acc rows c)) = committed c"
  by (simp add: insert_batch_to_mariadb_def insert_chunks_committed executemany_committed
      execute_def Let_def)

lemma insert_batch_pending:
  assumes "fst (insert_batch_to_mariadb acc rows c)"
  shows "pending (snd (insert_batch_to_mariadb acc rows c)) = pending c @ rows"
proof (cases rows rule: insert_batch_cases)
  case 1
  then show ?thesis by (simp add: insert_batch_to_mariadb_def)
next
  case (2 r)
  then show ?thesis using assms
    by (simp add: insert_batch_to_mariadb_def execute_def Let_def split: if_splits)
next
  case 3
  then have "insert_batch_to_mariadb acc rows c = executemany acc rows c"
    by (auto simp: insert_batch_to_mariadb_def)
  then show ?thesis using assms executemany_pending[of acc rows c] by simp
next
  case 4
  then have "insert_batch_to_mariadb acc rows c = insert_chunks acc rows 0 c"
    by (auto simp: insert_batch_to_mariadb_def)
  then show ?thesis using assms insert_chunks_pending[of acc rows 0 c] by simp
qed

lemma insert_batch_fst_fresh:
  "fst (insert_batch_to_mariadb acc rows c) =
   fst (insert_batch_to_mariadb acc rows (fresh (committed c @ pending c)))"
  unfolding insert_batch_fst by (rule stage_fst_cong) (simp add: fresh_def)


lemma read_sql_page:
  assumes "\<not> read_fails e (int (j * bs))" "batch_size e = int bs" "0 < bs"
  shows "read_sql e (int (j * bs)) = Some (take bs (drop (j * bs) (source_rows e)))"
proof -
  have "nat (int (j * bs)) = j * bs" by (rule nat_int)
  then show ?thesis using assms by (simp add: read_sql_def del: of_nat_mult)
qed

lemma commit_accepted:
  assumes "\<And>x. commit_ok e x"
  shows "commit (commit_ok e) c =
         (True, c\<lparr>calls := calls c @ [Commit], committed := committed c @ pending c, pending := []\<rparr>)"
  using assms by (simp add: commit_def Let_def)

lemma migrate_loop_step:
  assumes rf: "\<not> read_fails e (int (j * bs))" and ck: "\<And>x. commit_ok e x"
    and bs: "batch_size e = int bs" "0 < bs"
    and lt: "j * bs < length (source_rows e)"
  shows "migrate_loop e (int (length (source_rows e))) (int (j * bs)) (int j) c =
     (let r = insert_batch_to_mariadb (accepts e) (take bs (drop (j * bs) (source_rows e))) c
      in if fst r then
           (if Suc j mod 50 = 0 \<or> length (source_rows e) \<le> Suc j * bs
            then migrate_loop e (int (length (source_rows e))) (int (Suc j * bs)) (int (Suc j))
                   (snd (commit (commit_ok e) (snd r)))
            else migrate_loop e (int (length (source_rows e))) (int (Suc j * bs)) (int (Suc j)) (snd r))
         else (False, close (rollback (snd r))))"
proof -
  have ne: "take bs (drop (j * bs) (source_rows e)) \<noteq> []"
    using lt bs(2) by simp
  have m: "((int j + 1) mod 50 = 0) = (Suc j mod 50 = 0)"
  proof -
    have "int j + 1 = int (Suc j)" by simp
    then have "(int j + 1) mod 50 = int (Suc j mod 50)"
      by (simp only: zmod_int) simp
    then show ?thesis by simp
  qed
  have o: "int (j * bs) + int bs = int (Suc j * bs)" by simp
  have g: "(int (length (source_rows e)) \<le> int (j * bs) + int bs) = (length (source_rows e) \<le> Suc j * bs)"
    unfolding o by (rule of_nat_le_iff)
  have l: "int (j * bs) < int (length (source_rows e))"
    using lt by (simp only: of_nat_less_iff)
  have b: "int j + 1 = int (Suc j)" by simp
  have m': "(int (Suc j) mod 50 = 0) = (Suc j mod 50 = 0)"
    using m unfolding b .
  have g': "(int (length (source_rows e)) \<le> int (Suc j * bs)) = (length (source_rows e) \<le> Suc j * bs)"
    by (rule of_nat_le_iff)
  show ?thesis
    apply (subst migrate_loop.simps)
    apply (simp only: read_sql_page[OF rf bs] Let_def option.case ne if_False split_beta
        commit_accepted[OF ck] fst_conv snd_conv bs(1) m m' o g g' b if_True)
    apply (simp only: l if_True)
    done
qed

lemma take_drop_take: "m \<le> n \<Longrightarrow> take m xs @ drop m (take n xs) = take n xs"
proof -
  assume "m \<le> n"
  then have "take m (take n xs) = take m xs" by (simp add: min_def)
  then show ?thesis using append_take_drop_id[of m "take n xs"] by simp
qed

lemma drop_take_extend:
  "m \<le> n \<Longrightarrow> n \<le> length xs \<Longrightarrow> drop m (take n xs) @ take b (drop n xs) = drop m (take (n + b) xs)"
  by (simp add: take_add)

lemma checkpoint_le: "50 * (j div 50) * bs \<le> j * (bs::nat)"
proof -
  have "50 * (j div 50) \<le> j" by simp
  then show ?thesis by (rule mult_le_mono1)
qed

lemma migrate_loop_read_fails:
  assumes "read_fails e (int (j * bs))" "j * bs < length (source_rows e)"
  shows "migrate_loop e (int (length (source_rows e))) (int (j * bs)) (int j) c =
         (False, close (rollback c))"
proof -
  have "int (j * bs) < int (length (source_rows e))"
    using assms(2) by (simp only: of_nat_less_iff)
  then show ?thesis
    using assms(1) by (simp add: migrate_loop.simps[of e _ "int (j * bs)"] read_sql_def del: of_nat_mult)
qed

lemma migrate_loop_fails:
  assumes rf: "\<forall>i<k. \<not> read_fails e (int (i * bs))" and ck: "\<And>x. commit_ok e x"
    and bs: "batch_size e = int bs" "0 < bs"
    and lt: "k * bs < length (source_rows e)"
    and bad: "read_fails e (int (k * bs)) \<or>
              \<not> fst (insert_batch_to_mariadb (accepts e) (take bs (drop (k * bs) (source_rows e)))
                   (fresh (tbl @ take (k * bs) (source_rows e))))"
  shows "j \<le> k \<Longrightarrow>
    (\<forall>i. j \<le> i \<and> i < k \<longrightarrow>
       fst (insert_batch_to_mariadb (accepts e) (take bs (drop (i * bs) (source_rows e)))
              (fresh (tbl @ take (i * bs) (source_rows e))))) \<Longrightarrow>
    committed c = tbl @ take (50 * (j div 50) * bs) (source_rows e) \<Longrightarrow>
    pending c = drop (50 * (j div 50) * bs) (take (j * bs) (source_rows e)) \<Longrightarrow>
    \<not> fst (migrate_loop e (int (length (source_rows e))) (int (j * bs)) (int j) c) \<and>
    committed (snd (migrate_loop e (int (length (source_rows e))) (int (j * bs)) (int j) c)) =
      tbl @ take (50 * (k div 50) * bs) (source_rows e) \<and>
    pending (snd (migrate_loop e (int (length (source_rows e))) (int (j * bs)) (int j) c)) = []"
proof (induction "k - j" arbitrary: j c)
  case 0
  then have jk: "j = k" by simp
  let ?r = "insert_batch_to_mariadb (accepts e) (take bs (drop (j * bs) (source_rows e))) c"
  have sum: "committed c @ pending c = tbl @ take (j * bs) (source_rows e)"
    using "0.prems"(3,4) take_drop_take[OF checkpoint_le[of j bs], of "source_rows e"] by simp
  show ?case
  proof (cases "read_fails e (int (k * bs))")
    case True
    then have "migrate_loop e (int (length (source_rows e))) (int (j * bs)) (int j) c =
               (False, close (rollback c))"
      using migrate_loop_read_fails[of e k bs c] lt jk by simp
    then show ?thesis
      using "0.prems"(3) jk by (simp add: close_def rollback_def)
  next
    case False
    then have "\<not> fst ?r"
      using bad insert_batch_fst_fresh[of "accepts e" _ c] sum jk by simp
    then have "migrate_loop e (int (length (source_rows e))) (int (j * bs)) (int j) c =
               (False, close (rollback (snd ?r)))"
      using migrate_loop_step[of e j bs c, OF _ ck bs] False lt jk by (simp add: Let_def)
    then show ?thesis
      using "0.prems"(3) jk by (simp add: close_def rollback_def insert_batch_committed)
  qed
next
  case (Suc d)
  then have jk: "j < k" by simp
  let ?src = "source_rows e"
  let ?r = "insert_batch_to_mariadb (accepts e) (take bs (drop (j * bs) ?src)) c"
  have rfj: "\<not> read_fails e (int (j * bs))" using rf jk by simp
  have ltj: "j * bs < length ?src"
    using jk lt bs(2) by (meson le_less_trans less_imp_le mult_le_mono1)
  have ltS: "Suc j * bs < length ?src"
  proof -
    have "Suc j \<le> k" using jk by simp
    then have "Suc j * bs \<le> k * bs" by (rule mult_le_mono1)
    then show ?thesis using lt by simp
  qed
  have sum: "committed c @ pending c = tbl @ take (j * bs) ?src"
    using Suc.prems(3,4) take_drop_take[OF checkpoint_le[of j bs], of ?src] by simp
  have ok: "fst ?r"
    using Suc.prems(2) jk insert_batch_fst_fresh[of "accepts e" _ c] sum by simp
  have c1c: "committed (snd ?r) = committed c" by (rule insert_batch_committed)
  have c1p: "pending (snd ?r) = pending c @ take bs (drop (j * bs) ?src)"
    using ok by (rule insert_batch_pending)
  have d: "d = k - Suc j" using Suc.hyps(2) by simp
  have le: "Suc j \<le> k" using jk by simp
  have rest: "\<forall>i. Suc j \<le> i \<and> i < k \<longrightarrow>
       fst (insert_batch_to_mariadb (accepts e) (take bs (drop (i * bs) ?src))
              (fresh (tbl @ take (i * bs) ?src)))"
    using Suc.prems(2) by simp
  have ext: "take (j * bs) ?src @ take bs (drop (j * bs) ?src) = take (Suc j * bs) ?src"
  proof -
    have "Suc j * bs = j * bs + bs" by simp
    then show ?thesis by (simp only: take_add)
  qed
  show ?case
  proof (cases "Suc j mod 50 = 0")
    case True
    let ?c2 = "snd (commit (commit_ok e) (snd ?r))"
    have step: "migrate_loop e (int (length ?src)) (int (j * bs)) (int j) c =
                migrate_loop e (int (length ?src)) (int (Suc j * bs)) (int (Suc j)) ?c2"
      using migrate_loop_step[OF rfj ck bs ltj, of c] ok True by (simp add: Let_def)
    have cp: "50 * (Suc j div 50) = Suc j"
      using mult_div_mod_eq[of 50 "Suc j"] True by simp
    have "committed ?c2 = (committed c @ pending c) @ take bs (drop (j * bs) ?src)"
      using c1c c1p by (simp add: commit_accepted[OF ck])
    also have "\<dots> = tbl @ (take (j * bs) ?src @ take bs (drop (j * bs) ?src))"
      by (simp only: sum append_assoc)
    also have "\<dots> = tbl @ take (Suc j * bs) ?src"
      by (simp only: ext)
    finally have a: "committed ?c2 = tbl @ take (50 * (Suc j div 50) * bs) ?src"
      by (simp only: cp)
    have b: "pending ?c2 = drop (50 * (Suc j div 50) * bs) (take (Suc j * bs) ?src)"
      unfolding cp by (simp add: commit_accepted[OF ck])
    show ?thesis
      unfolding step by (rule Suc.hyps(1)[OF d le rest a b])
  next
    case False
    have step: "migrate_loop e (int (length ?src)) (int (j * bs)) (int j) c =
                migrate_loop e (int (length ?src)) (int (Suc j * bs)) (int (Suc j)) (snd ?r)"
      using migrate_loop_step[OF rfj ck bs ltj, of c] ok False ltS by (simp add: Let_def)
    have cp: "Suc j div 50 = j div 50" using False by (simp add: div_Suc)
    have a: "committed (snd ?r) = tbl @ take (50 * (Suc j div 50) * bs) ?src"
      unfolding cp using c1c Suc.prems(3) by simp
    have "drop (50 * (j div 50) * bs) (take (j * bs) ?src) @ take bs (drop (j * bs) ?src) =
          drop (50 * (j div 50) * bs) (take (j * bs + bs) ?src)"
      using ltj by (intro drop_take_extend checkpoint_le) simp
    moreover have "Suc j * bs = j * bs + bs" by simp
    moreover have "pending (snd ?r) =
        drop (50 * (j div 50) * bs) (take (j * bs) ?src) @ take bs (drop (j * bs) ?src)"
      by (simp only: c1p Suc.prems(4))
    ultimately have b: "pending (snd ?r) = drop (50 * (Suc j div 50) * bs) (take (Suc j * bs) ?src)"
      by (simp only: cp)
    show ?thesis
      unfolding step by (rule Suc.hyps(1)[OF d le rest a b])
  qed
qed

lemma migrate_loop_done:
  "\<not> offset < t \<Longrightarrow> migrate_loop e t offset b c = final_commit e c"
  by (simp add: migrate_loop.simps[of e t offset b c])

lemma final_commit_accepted:
  assumes "\<And>x. commit_ok e x"
  shows "fst (final_commit e c) \<and> committed (snd (final_commit e c)) = committed c @ pending c \<and>
         pending (snd (final_commit e c)) = []"
  by (simp add: final_commit_def commit_accepted[OF assms] close_def)

lemma migrate_loop_succeeds:
  assumes rf: "\<forall>i. i * bs < length (source_rows e) \<longrightarrow> \<not> read_fails e (int (i * bs))"
    and ck: "\<And>x. commit_ok e x"
    and bs: "batch_size e = int bs" "0 < bs"
    and good: "\<forall>i. i * bs < length (source_rows e) \<longrightarrow>
       fst (insert_batch_to_mariadb (accepts e) (take bs (drop (i * bs) (source_rows e)))
              (fresh (tbl @ take (i * bs) (source_rows e))))"
  shows "committed c @ pending c = tbl @ take (j * bs) (source_rows e) \<Longrightarrow>
    fst (migrate_loop e (int (length (source_rows e))) (int (j * bs)) (int j) c) \<and>
    committed (snd (migrate_loop e (int (length (source_rows e))) (int (j * bs)) (int j) c)) =
      tbl @ source_rows e \<and>
    pending (snd (migrate_loop e (int (length (source_rows e))) (int (j * bs)) (int j) c)) = []"
proof (induction "length (source_rows e) - j * bs" arbitrary: j c rule: less_induct)
  case less
  let ?src = "source_rows e"
  show ?case
  proof (cases "j * bs < length ?src")
    case False
    have "\<not> int (j * bs) < int (length ?src)"
      unfolding of_nat_less_iff by (rule False)
    then have "migrate_loop e (int (length ?src)) (int (j * bs)) (int j) c = final_commit e c"
      by (rule migrate_loop_done)
    moreover have "take (j * bs) ?src = ?src" using False by simp
    ultimately show ?thesis
      using final_commit_accepted[OF ck, of c] less.prems by simp
  next
    case True
    let ?r = "insert_batch_to_mariadb (accepts e) (take bs (drop (j * bs) ?src)) c"
    let ?c2 = "snd (commit (commit_ok e) (snd ?r))"
    have rfj: "\<not> read_fails e (int (j * bs))" using rf True by simp
    have ok: "fst ?r"
      using good True insert_batch_fst_fresh[of "accepts e" _ c] less.prems by simp
    have c1c: "committed (snd ?r) = committed c" by (rule insert_batch_committed)
    have c1p: "pending (snd ?r) = pending c @ take bs (drop (j * bs) ?src)"
      using ok by (rule insert_batch_pending)
    have ext: "take (j * bs) ?src @ take bs (drop (j * bs) ?src) = take (Suc j * bs) ?src"
    proof -
      have "Suc j * bs = j * bs + bs" by simp
      then show ?thesis by (simp only: take_add)
    qed
    have "committed (snd ?r) @ pending (snd ?r) = (committed c @ pending c) @ take bs (drop (j * bs) ?src)"
      using c1c c1p by simp
    also have "\<dots> = tbl @ (take (j * bs) ?src @ take bs (drop (j * bs) ?src))"
      by (simp only: less.prems append_assoc)
    finally have s1: "committed (snd ?r) @ pending (snd ?r) = tbl @ take (Suc j * bs) ?src"
      by (simp only: ext)
    have s2: "committed ?c2 @ pending ?c2 = tbl @ take (Suc j * bs) ?src"
      using s1 by (simp add: commit_accepted[OF ck])
    have dec: "length ?src - Suc j * bs < length ?src - j * bs"
      using True bs(2) by simp
    show ?thesis
    proof (cases "Suc j mod 50 = 0 \<or> length ?src \<le> Suc j * bs")
      case True
      then have step: "migrate_loop e (int (length ?src)) (int (j * bs)) (int j) c =
                migrate_loop e (int (length ?src)) (int (Suc j * bs)) (int (Suc j)) ?c2"
        using migrate_loop_step[OF rfj ck bs \<open>j * bs < length ?src\<close>, of c] ok
        by (simp only: Let_def if_True)
      show ?thesis unfolding step by (rule less.hyps[OF dec s2])
    next
      case False
      then have step: "migrate_loop e (int (length ?src)) (int (j * bs)) (int j) c =
                migrate_loop e (int (length ?src)) (int (Suc j * bs)) (int (Suc j)) (snd ?r)"
        using migrate_loop_step[OF rfj ck bs True, of c] ok
        by (simp only: Let_def if_True if_False)
      show ?thesis unfolding step by (rule less.hyps[OF dec s1])
    qed
  qed
qed

lemma migrate_table_data_loop:
  assumes "source_up e" "target_up e" "\<not> count_fails e" "source_rows e \<noteq> []"
  shows "migrate_table_data e c = migrate_loop e (int (length (source_rows e))) (int (0 * bs)) (int 0) c"
  using assms by (simp add: migrate_table_data_def Let_def)

lemma migrate_table_data_succeeds:
  assumes "source_up e" "target_up e" "\<not> count_fails e"
    and ck: "\<forall>x. commit_ok e x"
    and bs: "batch_size e = int bs" "0 < bs"
    and good: "\<forall>i. i * bs < length (source_rows e) \<longrightarrow>
             \<not> read_fails e (int (i * bs)) \<and>
             fst (insert_batch_to_mariadb (accepts e) (take bs (drop (i * bs) (source_rows e)))
                    (fresh (tbl @ take (i * bs) (source_rows e))))"
  shows "fst (migrate_table_data e (fresh tbl)) \<and>
         committed (snd (migrate_table_data e (fresh tbl))) = tbl @ source_rows e"
proof (cases "source_rows e = []")
  case True
  then show ?thesis using assms(1-3)
    by (simp add: migrate_table_data_def close_def fresh_def)
next
  case False
  have i: "committed (fresh tbl) @ pending (fresh tbl) = tbl @ take (0 * bs) (source_rows e)"
    by (simp add: fresh_def)
  have rf: "\<forall>i. i * bs < length (source_rows e) \<longrightarrow> \<not> read_fails e (int (i * bs))"
    using good by blast
  have ins: "\<forall>i. i * bs < length (source_rows e) \<longrightarrow>
             fst (insert_batch_to_mariadb (accepts e) (take bs (drop (i * bs) (source_rows e)))
                    (fresh (tbl @ take (i * bs) (source_rows e))))"
    using good by blast
  from migrate_loop_succeeds[of bs e tbl "fresh tbl" 0, OF rf _ bs ins i] ck
  show ?thesis
    unfolding migrate_table_data_loop[OF assms(1-3) False, of "fresh tbl" bs] by simp
qed

lemma migrate_table_data_fails_at:
  assumes "source_up e" "target_up e" "\<not> count_fails e"
    and ck: "\<forall>x. commit_ok e x"
    and bs: "batch_size e = int bs" "0 < bs"
    and lt: "k * bs < length (source_rows e)"
    and before: "\<forall>i<k. \<not> read_fails e (int (i * bs)) \<and>
                    fst (insert_batch_to_mariadb (accepts e) (take bs (drop (i * bs) (source_rows e)))
                    (fresh (tbl @ take (i * bs) (source_rows e))))"
    and bad: "read_fails e (int (k * bs)) \<or>
              \<not> fst (insert_batch_to_mariadb (accepts e) (take bs (drop (k * bs) (source_rows e)))
                    (fresh (tbl @ take (k * bs) (source_rows e))))"
  shows "\<not> fst (migrate_table_data e (fresh tbl)) \<and>
         committed (snd (migrate_table_data e (fresh tbl))) =
           tbl @ take (50 * (k div 50) * bs) (source_rows e) \<and>
         pending (snd (migrate_table_data e (fresh tbl))) = []"
proof -
  have ne: "source_rows e \<noteq> []" using lt by auto
  have i1: "committed (fresh tbl) = tbl @ take (50 * (0 div 50) * bs) (source_rows e)"
    by (simp add: fresh_def)
  have i2: "pending (fresh tbl) = drop (50 * (0 div 50) * bs) (take (0 * bs) (source_rows e))"
    by (simp add: fresh_def)
  have rf: "\<forall>i<k. \<not> read_fails e (int (i * bs))"
    using before by blast
  have pre: "\<forall>i. 0 \<le> i \<and> i < k \<longrightarrow>
       fst (insert_batch_to_mariadb (accepts e) (take bs (drop (i * bs) (source_rows e)))
              (fresh (tbl @ take (i * bs) (source_rows e))))"
    using before by simp
  show ?thesis
    unfolding migrate_table_data_loop[OF assms(1-3) ne, of "fresh tbl" bs]
    using migrate_loop_fails[of k e bs tbl 0 "fresh tbl", OF rf _ bs lt bad _ pre i1 i2] ck
    by simp
qed

text \<open>
  C2. With a source and a target that are reachable, commits that do not fail and a
  positive batch size \<open>bs\<close>, on a target table holding \<open>tbl\<close>: when every page is
  read and accepted the transfer succeeds and the table holds \<open>tbl\<close> followed by all
  source rows (the commit at completion); when pages \<open>1..k\<close> are read and accepted and
  page \<open>k + 1\<close> cannot be read or is rejected, the transfer fails, nothing stays
  staged and the table holds \<open>tbl\<close> followed by exactly the first
  \<open>50 * (k div 50)\<close> pages: the rows committed at the last checkpoint, a checkpoint
  falling after every 50th page, and no row of a later page.
\<close>

theorem migrate_table_data_checkpoints:
  assumes "source_up e" "target_up e" "\<not> count_fails e"
    and "\<forall>x. commit_ok e x"
    and "batch_size e = int bs" and "0 < bs"
  shows "((\<forall>i. i * bs < length (source_rows e) \<longrightarrow>
             \<not> read_fails e (int (i * bs)) \<and>
             fst (insert_batch_to_mariadb (accepts e) (take bs (drop (i * bs) (source_rows e)))
                    (fresh (tbl @ take (i * bs) (source_rows e))))) \<longrightarrow>
          fst (migrate_table_data e (fresh tbl)) \<and>
          committed (snd (migrate_table_data e (fresh tbl))) = tbl @ source_rows e) \<and>
         (k * bs < length (source_rows e) \<and>
          (\<forall>i<k. \<not> read_fails e (int (i * bs)) \<and>
                 fst (insert_batch_to_mariadb (accepts e) (take bs (drop (i * bs) (source_rows e)))
                    (fresh (tbl @ take (i * bs) (source_rows e))))) \<and>
          (read_fails e (int (k * bs)) \<or>
           \<not> fst (insert_batch_to_mariadb (accepts e) (take bs (drop (k * bs) (source_rows e)))
                    (fresh (tbl @ take (k * bs) (source_rows e))))) \<longrightarrow>
          \<not> fst (migrate_table_data e (fresh tbl)) \<and>
          committed (snd (migrate_table_data e (fresh tbl))) =
            tbl @ take (50 * (k div 50) * bs) (source_rows e) \<and>
          pending (snd (migrate_table_data e (fresh tbl))) = [])"
  using migrate_table_data_succeeds[OF assms, of tbl] migrate_table_data_fails_at[OF assms, of k tbl]
  by blast

lemma page_of_one: "i < 51 \<Longrightarrow> take (Suc 0) (drop i [0..<51]) = [i]"
  by (simp add: take_Suc_conv_app_nth)

theorem migrate_table_data_checkpoints_witness:
  "50 * 1 < length (source_rows
      \<lparr>source_up = True, target_up = True, source_rows = [0..<51], count_fails = False,
       read_fails = (\<lambda>off. False), batch_size = 1,
       accepts = (\<lambda>tbl r. r \<noteq> (50::nat)), commit_ok = (\<lambda>rows. True)\<rparr>) \<and>
   \<not> fst (migrate_table_data
      \<lparr>source_up = True, target_up = True, source_rows = [0..<51], count_fails = False,
       read_fails = (\<lambda>off. False), batch_size = 1,
       accepts = (\<lambda>tbl r. r \<noteq> (50::nat)), commit_ok = (\<lambda>rows. True)\<rparr> (fresh [])) \<and>
   committed (snd (migrate_table_data
      \<lparr>source_up = True, target_up = True, source_rows = [0..<51], count_fails = False,
       read_fails = (\<lambda>off. False), batch_size = 1,
       accepts = (\<lambda>tbl r. r \<noteq> (50::nat)), commit_ok = (\<lambda>rows. True)\<rparr> (fresh []))) = [0..<50]"
proof -
  let ?e = "\<lparr>source_up = True, target_up = True, source_rows = [0..<51], count_fails = False,
       read_fails = (\<lambda>off. False), batch_size = 1,
       accepts = (\<lambda>tbl r. r \<noteq> (50::nat)), commit_ok = (\<lambda>rows. True)\<rparr>"
  have h1: "50 * 1 < length (source_rows ?e)" by simp
  have h2: "\<forall>i<50. \<not> read_fails ?e (int (i * 1)) \<and>
                    fst (insert_batch_to_mariadb (accepts ?e) (take 1 (drop (i * 1) (source_rows ?e)))
                    (fresh ([] @ take (i * 1) (source_rows ?e))))"
    by (simp add: page_of_one insert_batch_to_mariadb_def execute_def fresh_def)
  have h3: "read_fails ?e (int (50 * 1)) \<or>
            \<not> fst (insert_batch_to_mariadb (accepts ?e) (take 1 (drop (50 * 1) (source_rows ?e)))
                    (fresh ([] @ take (50 * 1) (source_rows ?e))))"
    by (simp add: page_of_one insert_batch_to_mariadb_def execute_def fresh_def)
  have "\<not> fst (migrate_table_data ?e (fresh [])) \<and>
        committed (snd (migrate_table_data ?e (fresh []))) =
          [] @ take (50 * (50 div 50) * 1) (source_rows ?e) \<and>
        pending (snd (migrate_table_data ?e (fresh []))) = []"
    by (rule migrate_table_data_checkpoints[of ?e 1 "[]" 50, THEN conjunct2, THEN mp,
          OF _ _ _ _ _ _ conjI[OF h1 conjI[OF h2 h3]]]) simp_all
  then show ?thesis using h1 by simp
qed

lemma page_of_two: "i \<le> 50 \<Longrightarrow> take 2 (drop (i * 2) [0..<102]) = [i * 2, Suc (i * 2)]"
proof -
  assume "i \<le> 50"
  then have "i * 2 + 2 \<le> 102" by simp
  then have "take 2 (drop (i * 2) [0..<102]) = [i * 2..<i * 2 + 2]"
    by (simp only: drop_upt take_upt add_0)
  also have "\<dots> = [i * 2, Suc (i * 2)]"
    by (simp add: upt_rec)
  finally show ?thesis .
qed

text \<open>
  C1. The transfer of a table is not all-or-nothing: with 102 source rows in pages of 2,
  an empty target table and a server that rejects the last row, pages 1 to 50 are
  inserted, the pass of page 50 commits them, page 51 fails and \<open>migrate_table_data\<close>
  returns \<open>False\<close> after its rollback, while the first 100 rows stay visible in the
  target table.
\<close>

theorem migrate_table_data_partial_commit:
  "\<not> fst (migrate_table_data
      \<lparr>source_up = True, target_up = True, source_rows = [0..<102], count_fails = False,
       read_fails = (\<lambda>off. False), batch_size = 2,
       accepts = (\<lambda>tbl r. r \<noteq> (101::nat)), commit_ok = (\<lambda>rows. True)\<rparr> (fresh [])) \<and>
   committed (snd (migrate_table_data
      \<lparr>source_up = True, target_up = True, source_rows = [0..<102], count_fails = False,
       read_fails = (\<lambda>off. False), batch_size = 2,
       accepts = (\<lambda>tbl r. r \<noteq> (101::nat)), commit_ok = (\<lambda>rows. True)\<rparr> (fresh []))) = [0..<100]"
proof -
  let ?e = "\<lparr>source_up = True, target_up = True, source_rows = [0..<102], count_fails = False,
       read_fails = (\<lambda>off. False), batch_size = 2,
       accepts = (\<lambda>tbl r. r \<noteq> (101::nat)), commit_ok = (\<lambda>rows. True)\<rparr>"
  have h2: "\<forall>i<50. \<not> read_fails ?e (int (i * 2)) \<and>
                    fst (insert_batch_to_mariadb (accepts ?e) (take 2 (drop (i * 2) (source_rows ?e)))
                    (fresh ([] @ take (i * 2) (source_rows ?e))))"
    by (simp add: page_of_two insert_batch_fst)
  have h3: "read_fails ?e (int (50 * 2)) \<or>
            \<not> fst (insert_batch_to_mariadb (accepts ?e) (take 2 (drop (50 * 2) (source_rows ?e)))
                    (fresh ([] @ take (50 * 2) (source_rows ?e))))"
    using page_of_two[of 50] by (simp add: insert_batch_fst)
  have "\<not> fst (migrate_table_data ?e (fresh [])) \<and>
        committed (snd (migrate_table_data ?e (fresh []))) =
          [] @ take (50 * (50 div 50) * 2) (source_rows ?e) \<and>
        pending (snd (migrate_table_data ?e (fresh []))) = []"
    by (rule migrate_table_data_fails_at[of ?e 2 50 "[]", OF _ _ _ _ _ _ _ h2 h3]) simp_all
  then show ?thesis by simp
qed

theorem migrate_table_data_partial_commit_witness:
  "source_up
      \<lparr>source_up = True, target_up = True, source_rows = [0..<102], count_fails = False,
       read_fails = (\<lambda>off. False), batch_size = 2,
       accepts = (\<lambda>tbl r. r \<noteq> (101::nat)), commit_ok = (\<lambda>rows. True)\<rparr> \<and>
   target_up
      \<lparr>source_up = True, target_up = True, source_rows = [0..<102], count_fails = False,
       read_fails = (\<lambda>off. False), batch_size = 2,
       accepts = (\<lambda>tbl r. r \<noteq> (101::nat)), commit_ok = (\<lambda>rows. True)\<rparr> \<and>
   committed (snd (migrate_table_data
      \<lparr>source_up = True, target_up = True, source_rows = [0..<102], count_fails = False,
       read_fails = (\<lambda>off. False), batch_size = 2,
       accepts = (\<lambda>tbl r. r \<noteq> (101::nat)), commit_ok = (\<lambda>rows. True)\<rparr> (fresh []))) \<noteq> committed (fresh [])"
proof -
  have "committed (snd (migrate_table_data
      \<lparr>source_up = True, target_up = True, source_rows = [0..<102], count_fails = False,
       read_fails = (\<lambda>off. False), batch_size = 2,
       accepts = (\<lambda>tbl r. r \<noteq> (101::nat)), commit_ok = (\<lambda>rows. True)\<rparr> (fresh []))) = [0..<100]"
    by (rule migrate_table_data_partial_commit[THEN conjunct2])
  then show ?thesis by (simp add: fresh_def)
qed

section \<open>Properties of the row-by-row fallback\<close>

lemma fallback_loop_accepted:
  "acc (committed (cursor s) @ pending (cursor s)) (map process_value row) \<Longrightarrow>
   fallback_loop acc columns (row # rest) index s =
   fallback_loop acc columns rest (index + 1)
     (s\<lparr>success_count := success_count s + 1,
        cursor := (cursor s)\<lparr>calls := calls (cursor s) @ [Execute (map process_value row)],
                              pending := pending (cursor s) @ [map process_value row]\<rparr>\<rparr>)"
  by (simp add: execute_def Let_def)

lemma fallback_loop_rejected:
  "\<not> acc (committed (cursor s) @ pending (cursor s)) (map process_value row) \<Longrightarrow>
   fallback_loop acc columns (row # rest) index s =
   (let s1 = s\<lparr>error_count := error_count s + 1,
                cursor := (cursor s)\<lparr>calls := calls (cursor s) @ [Execute (map process_value row)]\<rparr>,
                error_log := (if error_count s + 1 \<le> 5
                              then error_log s @ [(index + 1, problem_data columns row)]
                              else error_log s)\<rparr>
    in if error_count s + 1 > 10 then s1 else fallback_loop acc columns rest (index + 1) s1)"
  by (simp add: execute_def Let_def)

lemma fallback_loop_attempts:
  "error_count s \<le> 10 \<Longrightarrow>
   \<exists>n \<le> length rows.
     calls (cursor (fallback_loop acc columns rows index s)) =
       calls (cursor s) @ map (\<lambda>row. Execute (map process_value row)) (take n rows) \<and>
     success_count (fallback_loop acc columns rows index s) +
       error_count (fallback_loop acc columns rows index s) = success_count s + error_count s + n \<and>
     error_count (fallback_loop acc columns rows index s) \<le> 11 \<and>
     (error_count (fallback_loop acc columns rows index s) \<le> 10 \<longrightarrow> n = length rows)"
proof (induction rows arbitrary: index s)
  case Nil
  then show ?case by simp
next
  case (Cons row rest)
  show ?case
  proof (cases "acc (committed (cursor s) @ pending (cursor s)) (map process_value row)")
    case True
    let ?s1 = "s\<lparr>success_count := success_count s + 1,
        cursor := (cursor s)\<lparr>calls := calls (cursor s) @ [Execute (map process_value row)],
                              pending := pending (cursor s) @ [map process_value row]\<rparr>\<rparr>"
    have e: "error_count ?s1 \<le> 10" using Cons.prems by simp
    from Cons.IH[OF e, of "index + 1"] obtain n where n: "n \<le> length rest"
      "calls (cursor (fallback_loop acc columns rest (index + 1) ?s1)) =
         calls (cursor ?s1) @ map (\<lambda>row. Execute (map process_value row)) (take n rest)"
      "success_count (fallback_loop acc columns rest (index + 1) ?s1) +
         error_count (fallback_loop acc columns rest (index + 1) ?s1) =
       success_count ?s1 + error_count ?s1 + n"
      "error_count (fallback_loop acc columns rest (index + 1) ?s1) \<le> 11"
      "error_count (fallback_loop acc columns rest (index + 1) ?s1) \<le> 10 \<longrightarrow> n = length rest"
      by blast
    show ?thesis
      unfolding fallback_loop_accepted[where acc=acc and s=s and row=row, OF True]
      apply (rule exI[of _ "Suc n"])
      using n by simp
  next
    case False
    let ?s1 = "s\<lparr>error_count := error_count s + 1,
                cursor := (cursor s)\<lparr>calls := calls (cursor s) @ [Execute (map process_value row)]\<rparr>,
                error_log := (if error_count s + 1 \<le> 5
                              then error_log s @ [(index + 1, problem_data columns row)]
                              else error_log s)\<rparr>"
    show ?thesis
    proof (cases "error_count s + 1 > 10")
      case True
      then have "fallback_loop acc columns (row # rest) index s = ?s1"
        using fallback_loop_rejected[where acc=acc and s=s and row=row and columns=columns and rest=rest and index=index, OF False] by (simp add: Let_def)
      then show ?thesis
        apply (intro exI[of _ "Suc 0"])
        using Cons.prems True by simp
    next
      case stay: False
      then have st: "fallback_loop acc columns (row # rest) index s =
                 fallback_loop acc columns rest (index + 1) ?s1"
        using fallback_loop_rejected[where acc=acc and s=s and row=row and columns=columns and rest=rest and index=index, OF False] by (simp add: Let_def)
      have e: "error_count ?s1 \<le> 10" using stay by simp
      from Cons.IH[OF e, of "index + 1"] obtain n where n: "n \<le> length rest"
        "calls (cursor (fallback_loop acc columns rest (index + 1) ?s1)) =
           calls (cursor ?s1) @ map (\<lambda>row. Execute (map process_value row)) (take n rest)"
        "success_count (fallback_loop acc columns rest (index + 1) ?s1) +
           error_count (fallback_loop acc columns rest (index + 1) ?s1) =
         success_count ?s1 + error_count ?s1 + n"
        "error_count (fallback_loop acc columns rest (index + 1) ?s1) \<le> 11"
        "error_count (fallback_loop acc columns rest (index + 1) ?s1) \<le> 10 \<longrightarrow> n = length rest"
        by blast
      show ?thesis
        unfolding st
        apply (rule exI[of _ "Suc n"])
        using n by simp
    qed
  qed
qed

lemma length_shorten: "shorten v = Str t \<Longrightarrow> length t \<le> 50"
  by (cases v) (auto simp: shorten_def split: if_splits)

lemma problem_data_short: "(col, Str t) \<in> set (problem_data columns row) \<Longrightarrow> length t \<le> 50"
  by (auto simp: problem_data_def dest: length_shorten[OF sym])

lemma fallback_loop_log:
  "length (error_log s) = min 5 (error_count s) \<Longrightarrow>
   (\<forall>entry \<in> set (error_log s). \<forall>col t. (col, Str t) \<in> set (snd entry) \<longrightarrow> length t \<le> 50) \<Longrightarrow>
   length (error_log (fallback_loop acc columns rows index s)) =
     min 5 (error_count (fallback_loop acc columns rows index s)) \<and>
   (\<forall>entry \<in> set (error_log (fallback_loop acc columns rows index s)).
      \<forall>col t. (col, Str t) \<in> set (snd entry) \<longrightarrow> length t \<le> 50)"
proof (induction rows arbitrary: index s)
  case Nil
  then show ?case by simp
next
  case (Cons row rest)
  show ?case
  proof (cases "acc (committed (cursor s) @ pending (cursor s)) (map process_value row)")
    case True
    show ?thesis
      unfolding fallback_loop_accepted[where acc=acc and s=s and row=row, OF True]
      by (rule Cons.IH) (use Cons.prems in simp_all)
  next
    case False
    let ?s1 = "s\<lparr>error_count := error_count s + 1,
                cursor := (cursor s)\<lparr>calls := calls (cursor s) @ [Execute (map process_value row)]\<rparr>,
                error_log := (if error_count s + 1 \<le> 5
                              then error_log s @ [(index + 1, problem_data columns row)]
                              else error_log s)\<rparr>"
    have a: "length (error_log ?s1) = min 5 (error_count ?s1)"
      using Cons.prems(1) by auto
    have b: "\<forall>entry \<in> set (error_log ?s1). \<forall>col t. (col, Str t) \<in> set (snd entry) \<longrightarrow> length t \<le> 50"
      using Cons.prems(2) problem_data_short[of _ _ columns row] by auto
    show ?thesis
    proof (cases "error_count s + 1 > 10")
      case True
      then have "fallback_loop acc columns (row # rest) index s = ?s1"
        using fallback_loop_rejected[where acc=acc and s=s and row=row and columns=columns and rest=rest and index=index, OF False] by (simp add: Let_def)
      then show ?thesis using a b by (simp only:) 
    next
      case stay: False
      then have st: "fallback_loop acc columns (row # rest) index s =
                 fallback_loop acc columns rest (index + 1) ?s1"
        using fallback_loop_rejected[where acc=acc and s=s and row=row and columns=columns and rest=rest and index=index, OF False] by (simp add: Let_def)
      show ?thesis unfolding st by (rule Cons.IH[OF a b])
    qed
  qed
qed

lemma fallback_loop_consecutive:
  "\<forall>row \<in> set bad. \<not> acc (committed (cursor s) @ pending (cursor s)) (map process_value row) \<Longrightarrow>
   error_count s \<le> 10 \<Longrightarrow> 11 \<le> error_count s + length bad \<Longrightarrow>
   error_count (fallback_loop acc columns (bad @ rest) index s) = 11 \<and>
   success_count (fallback_loop acc columns (bad @ rest) index s) = success_count s \<and>
   calls (cursor (fallback_loop acc columns (bad @ rest) index s)) =
     calls (cursor s) @ map (\<lambda>row. Execute (map process_value row)) (take (11 - error_count s) bad)"
proof (induction bad arbitrary: index s)
  case Nil
  then show ?case by simp
next
  case (Cons row bad)
  let ?s1 = "s\<lparr>error_count := error_count s + 1,
                cursor := (cursor s)\<lparr>calls := calls (cursor s) @ [Execute (map process_value row)]\<rparr>,
                error_log := (if error_count s + 1 \<le> 5
                              then error_log s @ [(index + 1, problem_data columns row)]
                              else error_log s)\<rparr>"
  have rej: "\<not> acc (committed (cursor s) @ pending (cursor s)) (map process_value row)"
    using Cons.prems(1) by simp
  show ?case
  proof (cases "error_count s + 1 > 10")
    case True
    then have "fallback_loop acc columns ((row # bad) @ rest) index s = ?s1"
      using fallback_loop_rejected[where acc=acc and s=s and row=row and columns=columns and rest="bad @ rest" and index=index, OF rej] by (simp add: Let_def)
    moreover have "error_count s = 10" using True Cons.prems(2) by simp
    ultimately show ?thesis by simp
  next
    case False
    then have st: "fallback_loop acc columns ((row # bad) @ rest) index s =
               fallback_loop acc columns (bad @ rest) (index + 1) ?s1"
      using fallback_loop_rejected[where acc=acc and s=s and row=row and columns=columns and rest="bad @ rest" and index=index, OF rej] by (simp add: Let_def)
    have p1: "\<forall>row \<in> set bad. \<not> acc (committed (cursor ?s1) @ pending (cursor ?s1)) (map process_value row)"
      using Cons.prems(1) by simp
    have p2: "error_count ?s1 \<le> 10" using False by simp
    have p3: "11 \<le> error_count ?s1 + length bad" using Cons.prems(3) by simp
    have t: "take (11 - error_count s) (row # bad) = row # take (11 - error_count ?s1) bad"
      using False by (simp add: take_Cons')
    show ?thesis
      unfolding st t using Cons.IH[OF p1 p2 p3, of "index + 1"] by simp
  qed
qed

lemma fallback_loop_rejected_rows:
  "error_count s \<le> 10 \<Longrightarrow>
   error_log (fallback_loop acc columns rows index s) =
     error_log s @
     map (\<lambda>(i, row). (i + 1, problem_data columns row))
       (take (5 - error_count s)
          (spec_rejected_rows acc (committed (cursor s) @ pending (cursor s)) rows index)) \<and>
   error_count (fallback_loop acc columns rows index s) =
     min 11 (error_count s +
             length (spec_rejected_rows acc (committed (cursor s) @ pending (cursor s)) rows index))"
proof (induction rows arbitrary: index s)
  case Nil
  then show ?case by simp
next
  case (Cons row rest)
  show ?case
  proof (cases "acc (committed (cursor s) @ pending (cursor s)) (map process_value row)")
    case True
    let ?s1 = "s\<lparr>success_count := success_count s + 1,
        cursor := (cursor s)\<lparr>calls := calls (cursor s) @ [Execute (map process_value row)],
                              pending := pending (cursor s) @ [map process_value row]\<rparr>\<rparr>"
    have e: "error_count ?s1 \<le> 10" using Cons.prems by simp
    have t: "committed (cursor ?s1) @ pending (cursor ?s1) =
             (committed (cursor s) @ pending (cursor s)) @ [map process_value row]"
      by simp
    show ?thesis
      unfolding fallback_loop_accepted[where acc=acc and s=s and row=row, OF True]
      using Cons.IH[OF e, of "index + 1"] True unfolding t by simp
  next
    case False
    let ?s1 = "s\<lparr>error_count := error_count s + 1,
                cursor := (cursor s)\<lparr>calls := calls (cursor s) @ [Execute (map process_value row)]\<rparr>,
                error_log := (if error_count s + 1 \<le> 5
                              then error_log s @ [(index + 1, problem_data columns row)]
                              else error_log s)\<rparr>"
    have rr: "spec_rejected_rows acc (committed (cursor s) @ pending (cursor s)) (row # rest) index =
              (index, row) #
              spec_rejected_rows acc (committed (cursor s) @ pending (cursor s)) rest (index + 1)"
      using False by simp
    show ?thesis
    proof (cases "error_count s + 1 > 10")
      case True
      then have "fallback_loop acc columns (row # rest) index s = ?s1"
        using fallback_loop_rejected[where acc=acc and s=s and row=row and columns=columns and rest=rest and index=index, OF False]
        by (simp add: Let_def)
      moreover have "error_count s = 10" using True Cons.prems by simp
      ultimately show ?thesis unfolding rr by simp
    next
      case stay: False
      then have st: "fallback_loop acc columns (row # rest) index s =
                 fallback_loop acc columns rest (index + 1) ?s1"
        using fallback_loop_rejected[where acc=acc and s=s and row=row and columns=columns and rest=rest and index=index, OF False]
        by (simp add: Let_def)
      have e: "error_count ?s1 \<le> 10" using stay by simp
      have t: "committed (cursor ?s1) @ pending (cursor ?s1) = committed (cursor s) @ pending (cursor s)"
        by simp
      have tk: "take (5 - error_count s)
                  ((index, row) #
                   spec_rejected_rows acc (committed (cursor s) @ pending (cursor s)) rest (index + 1)) =
                (if error_count s + 1 \<le> 5
                 then (index, row) #
                      take (5 - (error_count s + 1))
                        (spec_rejected_rows acc (committed (cursor s) @ pending (cursor s)) rest (index + 1))
                 else [])"
        by (simp add: take_Cons')
      show ?thesis
        unfolding st rr tk
        using Cons.IH[OF e, of "index + 1"] unfolding t by simp
    qed
  qed
qed

text \<open>
  C8. The row-by-row fallback on a page \<open>df\<close>: it reports success exactly when the
  error count is zero; the error count never exceeds 11; the rows attempted are exactly
  the first \<open>success_count + error_count\<close> rows of the page, which is the whole page
  as long as the error count stays at 10 or below; the detailed log has one entry for
  each of the first five errors and none after, and no string in it is longer than 50
  characters. The log holds, for each of the first five rows the server rejects and in
  their order, the position of the row counted from 1 and its values by column name,
  every value as it is in the row except a string longer than 50 characters, which is
  logged as its first 47 characters followed by three dots; the error count is the
  number of rejected rows, capped at 11. When the page starts with more than 10 rows
  that the server rejects, the loop stops after the 11th with \<open>error_count = 11\<close>, no
  row inserted and no later row attempted.
\<close>

theorem fallback_single_insert_cap:
  "fst (fallback_single_insert acc columns df c) =
     (error_count (snd (fallback_single_insert acc columns df c)) = 0) \<and>
   error_count (snd (fallback_single_insert acc columns df c)) \<le> 11 \<and>
   calls (cursor (snd (fallback_single_insert acc columns df c))) =
     calls c @ map (\<lambda>row. Execute (map process_value row))
       (take (success_count (snd (fallback_single_insert acc columns df c)) +
              error_count (snd (fallback_single_insert acc columns df c))) df) \<and>
   (error_count (snd (fallback_single_insert acc columns df c)) \<le> 10 \<longrightarrow>
      success_count (snd (fallback_single_insert acc columns df c)) +
      error_count (snd (fallback_single_insert acc columns df c)) = length df) \<and>
   length (error_log (snd (fallback_single_insert acc columns df c))) =
     min 5 (error_count (snd (fallback_single_insert acc columns df c))) \<and>
   (\<forall>entry \<in> set (error_log (snd (fallback_single_insert acc columns df c))).
      \<forall>col t. (col, Str t) \<in> set (snd entry) \<longrightarrow> length t \<le> 50) \<and>
   error_log (snd (fallback_single_insert acc columns df c)) =
     map (\<lambda>(i, row).
            (i + 1,
             map (\<lambda>(col, val).
                     (col, (case val of
                              Str s \<Rightarrow> if 50 < length s then Str (take 47 s @ ''...'') else Str s
                            | _ \<Rightarrow> val)))
                  (zip columns row)))
       (take 5 (spec_rejected_rows acc (committed c @ pending c) df 0)) \<and>
   error_count (snd (fallback_single_insert acc columns df c)) =
     min 11 (length (spec_rejected_rows acc (committed c @ pending c) df 0)) \<and>
   (df = bad @ rest \<and> 10 < length bad \<and>
    (\<forall>row \<in> set bad. \<not> acc (committed c @ pending c) (map process_value row)) \<longrightarrow>
      \<not> fst (fallback_single_insert acc columns df c) \<and>
      error_count (snd (fallback_single_insert acc columns df c)) = 11 \<and>
      success_count (snd (fallback_single_insert acc columns df c)) = 0 \<and>
      calls (cursor (snd (fallback_single_insert acc columns df c))) =
        calls c @ map (\<lambda>row. Execute (map process_value row)) (take 11 bad))"
proof -
  let ?init = "\<lparr>success_count = 0, error_count = 0, error_log = [], cursor = c\<rparr>"
  let ?fin = "fallback_loop acc columns df 0 ?init"
  have r: "fallback_single_insert acc columns df c = (error_count ?fin = 0, ?fin)"
    by (simp add: fallback_single_insert_def Let_def)
  obtain n where n: "n \<le> length df"
    "calls (cursor ?fin) = calls (cursor ?init) @ map (\<lambda>row. Execute (map process_value row)) (take n df)"
    "success_count ?fin + error_count ?fin = success_count ?init + error_count ?init + n"
    "error_count ?fin \<le> 11" "error_count ?fin \<le> 10 \<longrightarrow> n = length df"
    using fallback_loop_attempts[where s="?init" and rows=df and acc=acc and columns=columns and index=0] by auto
  have n': "success_count ?fin + error_count ?fin = n" using n(3) by simp
  have lg: "length (error_log ?fin) = min 5 (error_count ?fin) \<and>
            (\<forall>entry \<in> set (error_log ?fin). \<forall>col t. (col, Str t) \<in> set (snd entry) \<longrightarrow> length t \<le> 50)"
    by (rule fallback_loop_log) simp_all
  have ctx: "\<And>row. problem_data columns row =
        map (\<lambda>(col, val).
                     (col, (case val of
                              Str s \<Rightarrow> if 50 < length s then Str (take 47 s @ ''...'') else Str s
                            | _ \<Rightarrow> val)))
                  (zip columns row)"
    by (simp add: problem_data_def shorten_def)
  have rj: "error_log ?fin =
        map (\<lambda>(i, row). (i + 1, problem_data columns row))
          (take 5 (spec_rejected_rows acc (committed c @ pending c) df 0)) \<and>
      error_count ?fin = min 11 (length (spec_rejected_rows acc (committed c @ pending c) df 0))"
    using fallback_loop_rejected_rows[where s="?init" and rows=df and acc=acc and columns=columns and index=0]
    by simp
  have rj1: "error_log ?fin =
        map (\<lambda>(i, row).
            (i + 1,
             map (\<lambda>(col, val).
                     (col, (case val of
                              Str s \<Rightarrow> if 50 < length s then Str (take 47 s @ ''...'') else Str s
                            | _ \<Rightarrow> val)))
                  (zip columns row)))
          (take 5 (spec_rejected_rows acc (committed c @ pending c) df 0))"
    using rj by (simp only: ctx)
  have rj2: "error_count ?fin = min 11 (length (spec_rejected_rows acc (committed c @ pending c) df 0))"
    using rj by simp
  have cons: "df = bad @ rest \<and> 10 < length bad \<and>
    (\<forall>row \<in> set bad. \<not> acc (committed c @ pending c) (map process_value row)) \<longrightarrow>
      error_count ?fin \<noteq> 0 \<and> error_count ?fin = 11 \<and> success_count ?fin = 0 \<and>
      calls (cursor ?fin) = calls c @ map (\<lambda>row. Execute (map process_value row)) (take 11 bad)"
  proof
    assume a: "df = bad @ rest \<and> 10 < length bad \<and>
      (\<forall>row \<in> set bad. \<not> acc (committed c @ pending c) (map process_value row))"
    then have "\<forall>row \<in> set bad. \<not> acc (committed (cursor ?init) @ pending (cursor ?init)) (map process_value row)"
      by simp
    from fallback_loop_consecutive[where acc=acc and s="?init" and bad=bad and columns=columns and rest=rest and index=0, OF this] a
    show "error_count ?fin \<noteq> 0 \<and> error_count ?fin = 11 \<and> success_count ?fin = 0 \<and>
      calls (cursor ?fin) = calls c @ map (\<lambda>row. Execute (map process_value row)) (take 11 bad)"
      by simp
  qed
  have c1: "(error_count ?fin = 0) = (error_count ?fin = 0)" by (rule refl)
  have c3: "calls (cursor ?fin) = calls c @ map (\<lambda>row. Execute (map process_value row))
         (take (success_count ?fin + error_count ?fin) df)"
    using n(2) n' by simp
  have c4: "error_count ?fin \<le> 10 \<longrightarrow> success_count ?fin + error_count ?fin = length df"
    using n(5) n' by simp
  have last: "df = bad @ rest \<and> 10 < length bad \<and>
    (\<forall>row \<in> set bad. \<not> acc (committed c @ pending c) (map process_value row)) \<longrightarrow>
      \<not> (error_count ?fin = 0) \<and> error_count ?fin = 11 \<and> success_count ?fin = 0 \<and>
      calls (cursor ?fin) = calls c @ map (\<lambda>row. Execute (map process_value row)) (take 11 bad)"
    using cons by simp
  show ?thesis
    unfolding r fst_conv snd_conv
    by (intro conjI c1 n(4) c3 c4 lg[THEN conjunct1] lg[THEN conjunct2] rj1 rj2 last)
qed

theorem fallback_single_insert_cap_witness:
  "10 < length (replicate 12 [Val (7::nat), Str (replicate 60 CHR ''a'')]) \<and>
   error_count (snd (fallback_single_insert (\<lambda>tbl row. False) [''id'', ''name'']
                       (replicate 12 [Val (7::nat), Str (replicate 60 CHR ''a'')] @ [[Null, Null]])
                       (fresh []))) = 11 \<and>
   length (calls (cursor (snd (fallback_single_insert (\<lambda>tbl row. False) [''id'', ''name'']
                       (replicate 12 [Val (7::nat), Str (replicate 60 CHR ''a'')] @ [[Null, Null]])
                       (fresh []))))) = 11 \<and>
   error_log (snd (fallback_single_insert (\<lambda>tbl row. False) [''id'', ''name'']
                       (replicate 12 [Val (7::nat), Str (replicate 60 CHR ''a'')] @ [[Null, Null]])
                       (fresh []))) =
     [(1, [(''id'', Val 7), (''name'', Str (replicate 47 CHR ''a'' @ ''...''))]),
      (2, [(''id'', Val 7), (''name'', Str (replicate 47 CHR ''a'' @ ''...''))]),
      (3, [(''id'', Val 7), (''name'', Str (replicate 47 CHR ''a'' @ ''...''))]),
      (4, [(''id'', Val 7), (''name'', Str (replicate 47 CHR ''a'' @ ''...''))]),
      (5, [(''id'', Val 7), (''name'', Str (replicate 47 CHR ''a'' @ ''...''))])]"
proof -
  let ?bad = "replicate 12 [Val (7::nat), Str (replicate 60 CHR ''a'')]"
  let ?r = "fallback_single_insert (\<lambda>tbl row. False) [''id'', ''name''] (?bad @ [[Null, Null]]) (fresh [])"
  note inst = fallback_single_insert_cap
          [of "\<lambda>tbl row. False" "[''id'', ''name'']" "?bad @ [[Null, Null]]" "fresh []" ?bad "[[Null, Null]]"]
  have h: "?bad @ [[Null, Null]] = ?bad @ [[Null, Null]] \<and> 10 < length ?bad \<and>
        (\<forall>row \<in> set ?bad. \<not> (\<lambda>tbl row. False) (committed (fresh []) @ pending (fresh [])) (map process_value row))"
    by simp
  have a: "\<not> fst ?r \<and> error_count (snd ?r) = 11 \<and> success_count (snd ?r) = 0 \<and>
        calls (cursor (snd ?r)) =
          calls (fresh []) @ map (\<lambda>row. Execute (map process_value row)) (take 11 ?bad)"
    by (rule inst
          [THEN conjunct2, THEN conjunct2, THEN conjunct2, THEN conjunct2, THEN conjunct2,
           THEN conjunct2, THEN conjunct2, THEN conjunct2, THEN mp, OF h])
  have rows: "take 5 (spec_rejected_rows (\<lambda>tbl row. False) (committed (fresh []) @ pending (fresh []))
                        (?bad @ [[Null, Null]]) 0) =
              [(0, [Val 7, Str (replicate 60 CHR ''a'')]), (1, [Val 7, Str (replicate 60 CHR ''a'')]),
               (2, [Val 7, Str (replicate 60 CHR ''a'')]), (3, [Val 7, Str (replicate 60 CHR ''a'')]),
               (4, [Val 7, Str (replicate 60 CHR ''a'')])]"
    by code_simp
  have b: "error_log (snd ?r) =
     [(1, [(''id'', Val 7), (''name'', Str (replicate 47 CHR ''a'' @ ''...''))]),
      (2, [(''id'', Val 7), (''name'', Str (replicate 47 CHR ''a'' @ ''...''))]),
      (3, [(''id'', Val 7), (''name'', Str (replicate 47 CHR ''a'' @ ''...''))]),
      (4, [(''id'', Val 7), (''name'', Str (replicate 47 CHR ''a'' @ ''...''))]),
      (5, [(''id'', Val 7), (''name'', Str (replicate 47 CHR ''a'' @ ''...''))])]"
    unfolding inst[THEN conjunct2, THEN conjunct2, THEN conjunct2, THEN conjunct2, THEN conjunct2,
           THEN conjunct2, THEN conjunct1] rows
    by simp
  show ?thesis using a b by (simp add: fresh_def)
qed

section \<open>Properties of the validator\<close>

text \<open>
  C6. \<open>validate_sample_data\<close>, when both sample queries return: the result is true
  exactly when the source sample is empty or the two samples have the same length; an
  empty source sample gives true whatever the target holds; and two runs whose samples
  have the same lengths give the same result, whatever the rows in them are.
\<close>

theorem validate_sample_data_lengths:
  "(sample_rows mssql = Returns xs \<and> sample_rows mariadb = Returns ys \<longrightarrow>
      validate_sample_data mssql mariadb = (xs = [] \<or> length xs = length ys)) \<and>
   (sample_rows mssql = Returns [] \<longrightarrow> validate_sample_data mssql mariadb) \<and>
   (sample_rows mssql = Returns xs \<and> sample_rows mariadb = Returns ys \<and>
    sample_rows mssql' = Returns xs' \<and> sample_rows mariadb' = Returns ys' \<and>
    length xs = length xs' \<and> length ys = length ys' \<longrightarrow>
      validate_sample_data mssql mariadb = validate_sample_data mssql' mariadb')"
  by (auto simp: validate_sample_data_def)

theorem validate_sample_data_lengths_witness:
  "sample_rows \<lparr>count_rows = Returns 2, sample_rows = Returns [''a'', ''b''],
                 column_types = Returns [], extremes = (\<lambda>col. Raises :: (int option \<times> int option) option outcome)\<rparr>
     = Returns [''a'', ''b''] \<and>
   validate_sample_data
     \<lparr>count_rows = Returns 2, sample_rows = Returns [''a'', ''b''],
      column_types = Returns [], extremes = (\<lambda>col. Raises :: (int option \<times> int option) option outcome)\<rparr>
     \<lparr>count_rows = Returns 2, sample_rows = Returns [''x'', ''y''],
      column_types = Returns [], extremes = (\<lambda>col. Raises :: (int option \<times> int option) option outcome)\<rparr>"
proof -
  let ?s = "\<lparr>count_rows = Returns 2, sample_rows = Returns [''a'', ''b''],
      column_types = Returns [], extremes = (\<lambda>col. Raises :: (int option \<times> int option) option outcome)\<rparr>"
  let ?t = "\<lparr>count_rows = Returns 2, sample_rows = Returns [''x'', ''y''],
      column_types = Returns [], extremes = (\<lambda>col. Raises :: (int option \<times> int option) option outcome)\<rparr>"
  have h: "sample_rows ?s = Returns [''a'', ''b''] \<and> sample_rows ?t = Returns [''x'', ''y'']"
    by simp
  have "validate_sample_data ?s ?t = ([''a'', ''b''] = [] \<or> length [''a'', ''b''] = length [''x'', ''y''])"
    by (rule validate_sample_data_lengths[of ?s "[''a'', ''b'']" ?t "[''x'', ''y'']" ?s "[]" ?t "[]",
          THEN conjunct1, THEN mp, OF h])
  then show ?thesis by simp
qed

lemma extremes_loop_mismatch:
  "(col, ty) \<in> set cols \<Longrightarrow> extremes mssql col = Returns (Some (smin, smax)) \<Longrightarrow>
   extremes mariadb col = Returns (Some (tmin, tmax)) \<Longrightarrow> smin \<noteq> tmin \<or> smax \<noteq> tmax \<Longrightarrow>
   \<not> extremes_loop mssql mariadb cols"
proof (induction cols)
  case Nil
  then show ?case by simp
next
  case (Cons c cols)
  obtain n t where c: "c = (n, t)" by (cases c)
  show ?case
  proof (cases "(col, ty) = c")
    case True
    then show ?thesis using Cons.prems c by auto
  next
    case False
    then have "\<not> extremes_loop mssql mariadb cols" using Cons by auto
    then show ?thesis using c by (auto split: outcome.splits option.splits)
  qed
qed

lemma validate_extreme_values_mismatch:
  assumes "column_types mssql = Returns cols" "(col, ty) \<in> set cols" "ty \<in> set numeric_types"
    and "extremes mssql col = Returns (Some (smin, smax))"
    and "extremes mariadb col = Returns (Some (tmin, tmax))"
    and "smin \<noteq> tmin \<or> smax \<noteq> tmax"
  shows "\<not> validate_extreme_values mssql mariadb"
proof -
  have "(col, ty) \<in> set (filter (\<lambda>(col_name, data_type). data_type \<in> set numeric_types) cols)"
    using assms(2,3) by simp
  from extremes_loop_mismatch[OF this assms(4,5,6)] assms(1)
  show ?thesis by (simp add: validate_extreme_values_def)
qed

lemma validate_single_table_consistency:
  "data_consistency (validate_single_table mssql_conn mariadb_conn) =
     (record_count_match (validate_single_table mssql_conn mariadb_conn) \<and>
      sample_data_match (validate_single_table mssql_conn mariadb_conn) \<and>
      extreme_values_match (validate_single_table mssql_conn mariadb_conn))"
  by (auto simp: validate_single_table_def initial_result_def Let_def
      split: option.splits outcome.splits)

lemma validate_single_table_extremes:
  assumes "mssql_conn = Some mssql" "mariadb_conn = Some mariadb"
    and "count_rows mssql = Returns n" "count_rows mariadb = Returns n"
    and "column_types mssql = Returns cols" "(col, ty) \<in> set cols" "ty \<in> set numeric_types"
    and "extremes mssql col = Returns (Some (smin, smax))"
    and "extremes mariadb col = Returns (Some (tmin, tmax))"
    and "smin \<noteq> tmin \<or> smax \<noteq> tmax"
  shows "\<not> extreme_values_match (validate_single_table mssql_conn mariadb_conn) \<and>
         \<not> data_consistency (validate_single_table mssql_conn mariadb_conn)"
  using validate_extreme_values_mismatch[OF assms(5-10)] assms(1-4)
  by (simp add: validate_single_table_def initial_result_def Let_def)

text \<open>
  C5. The extremes check does not reach every numeric column: when source and target
  both hold 3 rows and the only column \<open>qty\<close> is a \<open>tinyint\<close> whose maximum is
  200 in the source and 127 in the target, \<open>validate_single_table\<close> returns
  \<open>extreme_values_match\<close> and \<open>data_consistency\<close> both true. The column query of
  \<open>validate_extreme_values\<close> selects seven type names, \<open>tinyint\<close> and
  \<open>smallint\<close> not among them, so no extreme of the column is compared.
\<close>

theorem validate_single_table_tinyint_unchecked:
  "extremes
     \<lparr>count_rows = Returns 3, sample_rows = Returns [[1], [5], [200::int]],
      column_types = Returns [(''qty'', ''tinyint'')],
      extremes = (\<lambda>col. Returns (Some (Some 1, Some (200::int))))\<rparr> ''qty'' \<noteq>
   extremes
     \<lparr>count_rows = Returns 3, sample_rows = Returns [[1], [5], [127::int]],
      column_types = Returns [(''qty'', ''tinyint'')],
      extremes = (\<lambda>col. Returns (Some (Some 1, Some (127::int))))\<rparr> ''qty'' \<and>
   record_count_match (validate_single_table
     (Some \<lparr>count_rows = Returns 3, sample_rows = Returns [[1], [5], [200::int]],
            column_types = Returns [(''qty'', ''tinyint'')],
            extremes = (\<lambda>col. Returns (Some (Some 1, Some (200::int))))\<rparr>)
     (Some \<lparr>count_rows = Returns 3, sample_rows = Returns [[1], [5], [127::int]],
            column_types = Returns [(''qty'', ''tinyint'')],
            extremes = (\<lambda>col. Returns (Some (Some 1, Some (127::int))))\<rparr>)) \<and>
   extreme_values_match (validate_single_table
     (Some \<lparr>count_rows = Returns 3, sample_rows = Returns [[1], [5], [200::int]],
            column_types = Returns [(''qty'', ''tinyint'')],
            extremes = (\<lambda>col. Returns (Some (Some 1, Some (200::int))))\<rparr>)
     (Some \<lparr>count_rows = Returns 3, sample_rows = Returns [[1], [5], [127::int]],
            column_types = Returns [(''qty'', ''tinyint'')],
            extremes = (\<lambda>col. Returns (Some (Some 1, Some (127::int))))\<rparr>)) \<and>
   data_consistency (validate_single_table
     (Some \<lparr>count_rows = Returns 3, sample_rows = Returns [[1], [5], [200::int]],
            column_types = Returns [(''qty'', ''tinyint'')],
            extremes = (\<lambda>col. Returns (Some (Some 1, Some (200::int))))\<rparr>)
     (Some \<lparr>count_rows = Returns 3, sample_rows = Returns [[1], [5], [127::int]],
            column_types = Returns [(''qty'', ''tinyint'')],
            extremes = (\<lambda>col. Returns (Some (Some 1, Some (127::int))))\<rparr>))"
  by (simp add: validate_single_table_def initial_result_def Let_def validate_sample_data_def
      validate_extreme_values_def numeric_types_def)

theorem validate_single_table_tinyint_unchecked_witness:
  "''tinyint'' \<notin> set numeric_types \<and>
   data_consistency (validate_single_table
     (Some \<lparr>count_rows = Returns 3, sample_rows = Returns [[1], [5], [200::int]],
            column_types = Returns [(''qty'', ''tinyint'')],
            extremes = (\<lambda>col. Returns (Some (Some 1, Some (200::int))))\<rparr>)
     (Some \<lparr>count_rows = Returns 3, sample_rows = Returns [[1], [5], [127::int]],
            column_types = Returns [(''qty'', ''tinyint'')],
            extremes = (\<lambda>col. Returns (Some (Some 1, Some (127::int))))\<rparr>))"
proof -
  have "''tinyint'' \<notin> set numeric_types" by (simp add: numeric_types_def)
  moreover note validate_single_table_tinyint_unchecked
      [THEN conjunct2, THEN conjunct2, THEN conjunct2]
  ultimately show ?thesis by (rule conjI)
qed

text \<open>
  C10. When both connections open and both count queries return 0,
  \<open>validate_single_table\<close> returns a matching count with the sample flag, the extremes
  flag and the consistency flag all false.
\<close>

theorem validate_single_table_empty:
  "mssql_conn = Some mssql \<and> mariadb_conn = Some mariadb \<and>
   count_rows mssql = Returns 0 \<and> count_rows mariadb = Returns 0 \<longrightarrow>
   validate_single_table mssql_conn mariadb_conn =
     \<lparr>record_count_match = True, mssql_count = 0, mariadb_count = 0,
      sample_data_match = False, extreme_values_match = False, data_consistency = False\<rparr>"
  by (simp add: validate_single_table_def initial_result_def Let_def)

theorem validate_single_table_empty_witness:
  "count_rows \<lparr>count_rows = Returns 0, sample_rows = Returns ([] :: int list list),
                column_types = Returns [(''id'', ''int'')],
                extremes = (\<lambda>col. Returns (Some (None :: int option, None :: int option)))\<rparr>
     = Returns 0 \<and>
   \<not> data_consistency (validate_single_table
     (Some \<lparr>count_rows = Returns 0, sample_rows = Returns ([] :: int list list),
            column_types = Returns [(''id'', ''int'')],
            extremes = (\<lambda>col. Returns (Some (None :: int option, None :: int option)))\<rparr>)
     (Some \<lparr>count_rows = Returns 0, sample_rows = Returns ([] :: int list list),
            column_types = Returns [(''id'', ''int'')],
            extremes = (\<lambda>col. Returns (Some (None :: int option, None :: int option)))\<rparr>))"
proof -
  let ?v = "\<lparr>count_rows = Returns 0, sample_rows = Returns ([] :: int list list),
            column_types = Returns [(''id'', ''int'')],
            extremes = (\<lambda>col. Returns (Some (None :: int option, None :: int option)))\<rparr>"
  have h: "Some ?v = Some ?v \<and> Some ?v = Some ?v \<and>
           count_rows ?v = Returns 0 \<and> count_rows ?v = Returns 0"
    by simp
  have "validate_single_table (Some ?v) (Some ?v) =
     \<lparr>record_count_match = True, mssql_count = 0, mariadb_count = 0,
      sample_data_match = False, extreme_values_match = False, data_consistency = False\<rparr>"
    by (rule validate_single_table_empty[of "Some ?v" ?v "Some ?v" ?v, THEN mp, OF h])
  then show ?thesis by simp
qed

lemma validate_tables_queried:
  "set (queried (validate_tables db ts rep)) = set (queried rep) \<union> (set ts - {''Memo''})"
  by (induction ts arbitrary: rep) (auto simp: Let_def)

lemma validate_tables_memo:
  "tables (validate_tables db ts rep) ''Memo'' =
     (if ''Memo'' \<in> set ts then Some memo_result else tables rep ''Memo'')"
  by (induction ts arbitrary: rep) (auto simp: Let_def)

text \<open>
  C9. When the table list of the source contains \<open>Memo\<close>, the report of
  \<open>validate_migration_complete\<close> holds for it the result with all four flags true and
  both counts 0, whatever the two databases answer, and \<open>Memo\<close> is not among the
  tables for which \<open>validate_single_table\<close> opened connections and ran queries.
\<close>

theorem validate_migration_complete_memo:
  "''Memo'' \<in> set mssql_tables \<longrightarrow>
   tables (validate_migration_complete db mssql_tables) ''Memo'' =
     Some \<lparr>record_count_match = True, mssql_count = 0, mariadb_count = 0,
           sample_data_match = True, extreme_values_match = True, data_consistency = True\<rparr> \<and>
   ''Memo'' \<notin> set (queried (validate_migration_complete db mssql_tables))"
  by (simp add: validate_migration_complete_def validate_tables_queried validate_tables_memo
      memo_result_def)

theorem validate_migration_complete_memo_witness:
  "''Memo'' \<in> set [''Factory'', ''Memo''] \<and>
   tables (validate_migration_complete
             (\<lambda>t. (None :: (int list, int) table_view option, None :: (int list, int) table_view option))
             [''Factory'', ''Memo'']) ''Memo'' =
     Some \<lparr>record_count_match = True, mssql_count = 0, mariadb_count = 0,
           sample_data_match = True, extreme_values_match = True, data_consistency = True\<rparr> \<and>
   queried (validate_migration_complete
             (\<lambda>t. (None :: (int list, int) table_view option, None :: (int list, int) table_view option))
             [''Factory'', ''Memo'']) = [''Factory'']"
proof -
  have h: "''Memo'' \<in> set [''Factory'', ''Memo'']" by simp
  note validate_migration_complete_memo
      [of "[''Factory'', ''Memo'']"
          "\<lambda>t. (None :: (int list, int) table_view option, None :: (int list, int) table_view option)",
       THEN mp, OF h, THEN conjunct1]
  moreover have "queried (validate_migration_complete
             (\<lambda>t. (None :: (int list, int) table_view option, None :: (int list, int) table_view option))
             [''Factory'', ''Memo'']) = [''Factory'']"
    by (simp add: validate_migration_complete_def Let_def)
  ultimately show ?thesis using h by simp
qed

section \<open>Properties of the orchestrator\<close>

lemma migrate_ordered_result:
  "attempted (migrate_ordered ops ts st) =
     attempted st @ filter (\<lambda>t. t \<in> set (op_tables ops)) ts \<and>
   failed_tables (migrate_ordered ops ts st) =
     failed_tables st @
     filter (\<lambda>t. \<not> op_migrate ops t (fst (snd (op_schema ops t))))
       (filter (\<lambda>t. t \<in> set (op_tables ops)) ts) \<and>
   data_success_count (migrate_ordered ops ts st) =
     data_success_count st +
     length (filter (\<lambda>t. op_migrate ops t (fst (snd (op_schema ops t))))
       (filter (\<lambda>t. t \<in> set (op_tables ops)) ts))"
proof (induction ts arbitrary: st)
  case Nil
  then show ?case by simp
next
  case (Cons t ts)
  obtain cols pks fks where sc: "op_schema ops t = (cols, pks, fks)"
    by (cases "op_schema ops t") auto
  show ?case
    using Cons.IH sc by (simp add: Let_def)
qed

lemma migrate_remaining_result:
  "attempted (migrate_remaining ops ts st) =
     attempted st @
     filter (\<lambda>t. fst (op_schema ops t) \<noteq> [] \<and>
                 op_create ops t (fst (op_schema ops t)) (fst (snd (op_schema ops t)))
                   (snd (snd (op_schema ops t)))) ts \<and>
   failed_tables (migrate_remaining ops ts st) =
     failed_tables st @
     filter (\<lambda>t. \<not> op_migrate ops t (fst (snd (op_schema ops t))))
       (filter (\<lambda>t. fst (op_schema ops t) \<noteq> [] \<and>
                 op_create ops t (fst (op_schema ops t)) (fst (snd (op_schema ops t)))
                   (snd (snd (op_schema ops t)))) ts) \<and>
   data_success_count (migrate_remaining ops ts st) =
     data_success_count st +
     length (filter (\<lambda>t. op_migrate ops t (fst (snd (op_schema ops t))))
       (filter (\<lambda>t. fst (op_schema ops t) \<noteq> [] \<and>
                 op_create ops t (fst (op_schema ops t)) (fst (snd (op_schema ops t)))
                   (snd (snd (op_schema ops t)))) ts))"
proof (induction ts arbitrary: st)
  case Nil
  then show ?case by simp
next
  case (Cons t ts)
  obtain cols pks fks where sc: "op_schema ops t = (cols, pks, fks)"
    by (cases "op_schema ops t") auto
  show ?case
    using Cons.IH sc by (simp add: Let_def)
qed

lemma length_filter_pos: "(0 < length (filter P xs)) = (\<exists>x \<in> set xs. P x)"
  by (induction xs) auto

text \<open>
  C7. \<open>migrate_full_database\<close> returns true exactly when the transfer of at least one
  of the tables it attempted succeeded; the failed tables are exactly the attempted
  tables whose transfer failed, in order; and once the table list is not empty and one
  structure was created, the attempted tables are all tables of \<open>table_order\<close>
  present in the source, followed by all other source tables whose schema could be read
  and whose target table could be created: which tables are attempted does not depend
  on the outcome of any transfer.
\<close>

theorem migrate_full_database_best_effort:
  "fst (migrate_full_database ops) =
     (\<exists>t \<in> set (attempted (snd (migrate_full_database ops))).
        op_migrate ops t (fst (snd (op_schema ops t)))) \<and>
   failed_tables (snd (migrate_full_database ops)) =
     filter (\<lambda>t. \<not> op_migrate ops t (fst (snd (op_schema ops t))))
       (attempted (snd (migrate_full_database ops))) \<and>
   (op_tables ops \<noteq> [] \<and> create_structures ops table_order 0 \<noteq> 0 \<longrightarrow>
    attempted (snd (migrate_full_database ops)) =
      filter (\<lambda>t. t \<in> set (op_tables ops)) table_order @
      filter (\<lambda>t. fst (op_schema ops t) \<noteq> [] \<and>
                  op_create ops t (fst (op_schema ops t)) (fst (snd (op_schema ops t)))
                    (snd (snd (op_schema ops t))))
        (filter (\<lambda>t. t \<notin> set table_order) (op_tables ops)))"
proof (cases "op_tables ops = [] \<or> create_structures ops table_order 0 = 0")
  case True
  then have "migrate_full_database ops = (False, no_migration)"
    by (auto simp: migrate_full_database_def Let_def)
  then show ?thesis using True by (auto simp: no_migration_def)
next
  case False
  let ?st0 = "no_migration\<lparr>structure_success_count := create_structures ops table_order 0\<rparr>"
  let ?st1 = "migrate_ordered ops table_order ?st0"
  let ?st2 = "migrate_remaining ops (filter (\<lambda>t. t \<notin> set table_order) (op_tables ops)) ?st1"
  have r: "migrate_full_database ops = (data_success_count ?st2 > 0, ?st2)"
    using False by (simp add: migrate_full_database_def Let_def)
  note o = migrate_ordered_result[of ops table_order ?st0]
  note m = migrate_remaining_result[of ops "filter (\<lambda>t. t \<notin> set table_order) (op_tables ops)" ?st1]
  have a: "attempted ?st2 =
      filter (\<lambda>t. t \<in> set (op_tables ops)) table_order @
      filter (\<lambda>t. fst (op_schema ops t) \<noteq> [] \<and>
                  op_create ops t (fst (op_schema ops t)) (fst (snd (op_schema ops t)))
                    (snd (snd (op_schema ops t))))
        (filter (\<lambda>t. t \<notin> set table_order) (op_tables ops))"
    using o m by (simp add: no_migration_def)
  have f: "failed_tables ?st2 =
      filter (\<lambda>t. \<not> op_migrate ops t (fst (snd (op_schema ops t)))) (attempted ?st2)"
    unfolding a using o m by (simp add: no_migration_def)
  have d: "data_success_count ?st2 =
      length (filter (\<lambda>t. op_migrate ops t (fst (snd (op_schema ops t)))) (attempted ?st2))"
    unfolding a using o m by (simp add: no_migration_def)
  have s: "(data_success_count ?st2 > 0) =
      (\<exists>t \<in> set (attempted ?st2). op_migrate ops t (fst (snd (op_schema ops t))))"
    unfolding d by (rule length_filter_pos)
  show ?thesis
    unfolding r fst_conv snd_conv using a f s by blast
qed

theorem migrate_full_database_best_effort_witness:
  "op_tables
     \<lparr>op_tables = [''Extra'', ''Factory'', ''Memo''],
      op_schema = (\<lambda>t. ([''id''], [''id''], [] :: string list)),
      op_create = (\<lambda>t cols pks fks. True),
      op_migrate = (\<lambda>t pks. t \<noteq> ''Factory'')\<rparr> \<noteq> [] \<and>
   attempted (snd (migrate_full_database
     \<lparr>op_tables = [''Extra'', ''Factory'', ''Memo''],
      op_schema = (\<lambda>t. ([''id''], [''id''], [] :: string list)),
      op_create = (\<lambda>t cols pks fks. True),
      op_migrate = (\<lambda>t pks. t \<noteq> ''Factory'')\<rparr>)) = [''Factory'', ''Memo'', ''Extra''] \<and>
   failed_tables (snd (migrate_full_database
     \<lparr>op_tables = [''Extra'', ''Factory'', ''Memo''],
      op_schema = (\<lambda>t. ([''id''], [''id''], [] :: string list)),
      op_create = (\<lambda>t cols pks fks. True),
      op_migrate = (\<lambda>t pks. t \<noteq> ''Factory'')\<rparr>)) = [''Factory''] \<and>
   fst (migrate_full_database
     \<lparr>op_tables = [''Extra'', ''Factory'', ''Memo''],
      op_schema = (\<lambda>t. ([''id''], [''id''], [] :: string list)),
      op_create = (\<lambda>t cols pks fks. True),
      op_migrate = (\<lambda>t pks. t \<noteq> ''Factory'')\<rparr>)"
proof -
  let ?ops = "\<lparr>op_tables = [''Extra'', ''Factory'', ''Memo''],
      op_schema = (\<lambda>t. ([''id''], [''id''], [] :: string list)),
      op_create = (\<lambda>t cols pks fks. True),
      op_migrate = (\<lambda>t pks. t \<noteq> ''Factory'')\<rparr>"
  have h: "op_tables ?ops \<noteq> [] \<and> create_structures ?ops table_order 0 \<noteq> 0"
    by (simp add: table_order_def)
  have "attempted (snd (migrate_full_database ?ops)) =
      filter (\<lambda>t. t \<in> set (op_tables ?ops)) table_order @
      filter (\<lambda>t. fst (op_schema ?ops t) \<noteq> [] \<and>
                  op_create ?ops t (fst (op_schema ?ops t)) (fst (snd (op_schema ?ops t)))
                    (snd (snd (op_schema ?ops t))))
        (filter (\<lambda>t. t \<notin> set table_order) (op_tables ?ops))"
    by (rule migrate_full_database_best_effort[of ?ops, THEN conjunct2, THEN conjunct2, THEN mp, OF h])
  then have a: "attempted (snd (migrate_full_database ?ops)) = [''Factory'', ''Memo'', ''Extra'']"
    by (simp add: table_order_def)
  have "failed_tables (snd (migrate_full_database ?ops)) =
     filter (\<lambda>t. \<not> op_migrate ?ops t (fst (snd (op_schema ?ops t))))
       (attempted (snd (migrate_full_database ?ops)))"
    by (rule migrate_full_database_best_effort[of ?ops, THEN conjunct2, THEN conjunct1])
  then have f: "failed_tables (snd (migrate_full_database ?ops)) = [''Factory'']"
    unfolding a by simp
  have "fst (migrate_full_database ?ops) =
     (\<exists>t \<in> set (attempted (snd (migrate_full_database ?ops))).
        op_migrate ?ops t (fst (snd (op_schema ?ops t))))"
    by (rule migrate_full_database_best_effort[of ?ops, THEN conjunct1])
  then have s: "fst (migrate_full_database ?ops)"
    unfolding a by simp
  show ?thesis using a f s by simp
qed

end
